theory Spec2Isabelle
  imports Complex_Main "HOL-Library.Sublist"
begin

chapter \<open>The model\<close>

section \<open>Exceptions and values\<close>

text \<open>The exceptions the modelled code raises or catches, by class.\<close>

datatype py_error =
    ValueError | FileNotFoundError | JSONDecodeError | PermissionError
  | IndexError | TypeError | KeyError | AttributeError | RuntimeError

text \<open>
  A metadata record is a Python dict from strings to JSON values; the values the code
  inspects are \<open>None\<close>, booleans, integers and strings. The dict is an association
  list in insertion order with distinct keys.
\<close>

datatype val = VNone | VBool bool | VInt int | VStr string

type_synonym metadata_record = "(string \<times> val) list"

section \<open>Python strings\<close>

text \<open>
  A Python \<open>str\<close> is a sequence of code points. Texts are modelled as \<open>string\<close>, a list
  of characters with code points 0 to 255, and \<open>length\<close> counts characters as
  \<open>len\<close> does. \<open>str.isspace\<close> on these code points is true for the ASCII
  white space 9 to 13, the separators 28 to 31, the blank 32, and 133 and 160.
\<close>

definition py_isspace :: "char \<Rightarrow> bool" where
  "py_isspace c \<longleftrightarrow> (of_char c :: nat) \<in> {9, 10, 11, 12, 13, 28, 29, 30, 31, 32, 133, 160}"

text \<open>\<open>s.strip()\<close>: white space removed from both ends.\<close>

definition py_strip :: "string \<Rightarrow> string" where
  "py_strip s = rev (dropWhile py_isspace (rev (dropWhile py_isspace s)))"

text \<open>
  \<open>s[a:b]\<close> as Python computes it: a negative bound counts from the end, and both
  bounds are clamped into \<open>0..len(s)\<close>.
\<close>

definition py_bound :: "nat \<Rightarrow> int \<Rightarrow> nat" where
  "py_bound n i = (if i < 0 then nat (max (i + int n) 0) else min (nat i) n)"

definition py_slice :: "string \<Rightarrow> int \<Rightarrow> int \<Rightarrow> string" where
  "py_slice s a b =
     (let lo = py_bound (length s) a; hi = py_bound (length s) b
      in take (hi - lo) (drop lo s))"

text \<open>
  \<open>s.rfind(m)\<close>: the highest index at which \<open>m\<close> starts in \<open>s\<close>, or -1. The
  scan runs down from the end of \<open>s\<close>.
\<close>

fun rfind_from :: "string \<Rightarrow> string \<Rightarrow> nat \<Rightarrow> int" where
  "rfind_from s m 0 = (if prefix m s then 0 else -1)"
| "rfind_from s m (Suc i) =
     (if prefix m (drop (Suc i) s) then int (Suc i) else rfind_from s m i)"

definition rfind :: "string \<Rightarrow> string \<Rightarrow> int" where
  "rfind s m = rfind_from s m (length s)"

section \<open>TextProcessor.chunk_text\<close>

text \<open>The boundary markers, in the order the loop tries them.\<close>

definition newline :: char where
  "newline = char_of (10 :: nat)"

definition markers :: "string list" where
  "markers = [''. '', ''! '', ''? '', [newline]]"

text \<open>
  The inner \<open>for punct in [...]\<close> loop with its \<open>break\<close>: the first marker whose
  last occurrence lies strictly beyond half of \<open>chunk_size\<close> cuts the chunk just after
  the first character of that occurrence. The source compares \<open>last_punct\<close> with
  the float \<open>chunk_size * 0.5\<close>; Python compares an int with a float exactly, so
  the test is \<open>2 * last_punct > chunk_size\<close>. The result is \<open>None\<close> when no marker
  qualifies and the chunk stays as it is.
\<close>

fun find_break :: "int \<Rightarrow> string \<Rightarrow> string list \<Rightarrow> string option" where
  "find_break cs chunk [] = None"
| "find_break cs chunk (punct # ps) =
     (let last_punct = rfind chunk punct
      in if 2 * last_punct > cs then Some (take (nat (last_punct + 1)) chunk)
         else find_break cs chunk ps)"

text \<open>
  One pass of the body of the \<open>while\<close> loop up to the chunk and the value of \<open>end\<close>:
  \<open>end\<close> is reassigned only when a marker cut the chunk.
\<close>

definition next_window :: "int \<Rightarrow> string \<Rightarrow> int \<Rightarrow> string \<times> int" where
  "next_window cs text start =
     (let end0 = start + cs;
          chunk = py_slice text start end0
      in if end0 < int (length text)
         then (case find_break cs chunk markers of
                 Some c \<Rightarrow> (c, start + int (length c))
               | None \<Rightarrow> (chunk, end0))
         else (chunk, end0))"

text \<open>
  The \<open>while start < len(text)\<close> loop. It may run forever, so it is a partial
  function: \<open>None\<close> is the value of a call that does not return.
\<close>

partial_function (option) chunk_loop ::
  "int \<Rightarrow> int \<Rightarrow> string \<Rightarrow> int \<Rightarrow> string list \<Rightarrow> string list option" where
  "chunk_loop cs ov text start chunks =
     (if start < int (length text)
      then (let w = next_window cs text start;
                stripped_chunk = py_strip (fst w);
                chunks' = (if stripped_chunk \<noteq> [] then chunks @ [stripped_chunk] else chunks)
            in if snd w \<ge> int (length text) then Some chunks'
               else chunk_loop cs ov text (snd w - ov) chunks')
      else Some chunks)"

declare chunk_loop.simps [code]

definition chunk_text :: "int \<Rightarrow> int \<Rightarrow> string \<Rightarrow> string list option" where
  "chunk_text cs ov text0 =
     (let text = py_strip text0
      in if int (length text) \<le> cs then Some (if text \<noteq> [] then [text] else [])
         else chunk_loop cs ov text 0 [])"

text \<open>
  Occurrences of a marker in a window, for stating where the loop cuts: \<open>m\<close> occurs
  in \<open>s\<close> at index \<open>i\<close>; its last occurrence is at \<open>i\<close>; no occurrence of
  \<open>m\<close> starts strictly beyond half of \<open>chunk_size\<close>.
\<close>

definition occurs_at :: "string \<Rightarrow> string \<Rightarrow> nat \<Rightarrow> bool" where
  "occurs_at s m i \<longleftrightarrow> i \<le> length s \<and> take (length m) (drop i s) = m"

definition last_occ :: "string \<Rightarrow> string \<Rightarrow> nat \<Rightarrow> bool" where
  "last_occ s m i \<longleftrightarrow>
     occurs_at s m i \<and> list_all (\<lambda>j. \<not> occurs_at s m j) [Suc i..<Suc (length s)]"

definition no_late_occ :: "int \<Rightarrow> string \<Rightarrow> string \<Rightarrow> bool" where
  "no_late_occ cs s m \<longleftrightarrow>
     list_all (\<lambda>j. occurs_at s m j \<longrightarrow> 2 * int j \<le> cs) [0..<Suc (length s)]"

section \<open>Python dicts and values\<close>

text \<open>
  Dict operations on association lists in insertion order: \<open>k in d\<close>, \<open>d[k] = v\<close>
  (a new key goes to the end, an existing key keeps its place), \<open>del d[k]\<close> and
  \<open>d[k]\<close>, which raises \<open>KeyError\<close> on a missing key.
\<close>

definition dict_has :: "(string \<times> 'a) list \<Rightarrow> string \<Rightarrow> bool" where
  "dict_has d k \<longleftrightarrow> k \<in> set (map fst d)"

fun dict_set :: "(string \<times> 'a) list \<Rightarrow> string \<Rightarrow> 'a \<Rightarrow> (string \<times> 'a) list" where
  "dict_set [] k v = [(k, v)]"
| "dict_set (p # ps) k v = (if fst p = k then (k, v) # ps else p # dict_set ps k v)"

definition dict_del :: "(string \<times> 'a) list \<Rightarrow> string \<Rightarrow> (string \<times> 'a) list" where
  "dict_del d k = filter (\<lambda>p. fst p \<noteq> k) d"

definition dict_lookup :: "(string \<times> 'a) list \<Rightarrow> string \<Rightarrow> py_error + 'a" where
  "dict_lookup d k = (case map_of d k of None \<Rightarrow> Inl KeyError | Some v \<Rightarrow> Inr v)"

text \<open>\<open>d.get(k)\<close> and \<open>d.get(k, default)\<close> on a metadata record.\<close>

definition dict_get_default :: "metadata_record \<Rightarrow> string \<Rightarrow> val \<Rightarrow> val" where
  "dict_get_default d k dflt = (case map_of d k of None \<Rightarrow> dflt | Some v \<Rightarrow> v)"

definition dict_get :: "metadata_record \<Rightarrow> string \<Rightarrow> val" where
  "dict_get d k = dict_get_default d k VNone"

text \<open>Python's \<open>==\<close> on these values: a boolean equals the integer 0 or 1.\<close>

fun py_eq :: "val \<Rightarrow> val \<Rightarrow> bool" where
  "py_eq (VBool a) (VInt i) = (i = (if a then 1 else 0))"
| "py_eq (VInt i) (VBool a) = (i = (if a then 1 else 0))"
| "py_eq x y = (x = y)"

text \<open>\<open>xs[i]\<close> on a list: a negative index counts from the end.\<close>

definition py_index :: "'a list \<Rightarrow> int \<Rightarrow> py_error + 'a" where
  "py_index xs i =
     (if 0 \<le> i \<and> i < int (length xs) then Inr (xs ! nat i)
      else if i < 0 \<and> - int (length xs) \<le> i then Inr (xs ! nat (i + int (length xs)))
      else Inl IndexError)"

text \<open>\<open>str(n)\<close> for integers and \<open>str(v)\<close> for values, as f-strings format them.\<close>

definition digit_char :: "nat \<Rightarrow> char" where
  "digit_char d = ''0123456789'' ! d"

function str_nat :: "nat \<Rightarrow> string" where
  "str_nat n = (if n < 10 then [digit_char n] else str_nat (n div 10) @ [digit_char (n mod 10)])"
  by pat_completeness auto
termination
  by (relation "measure id") auto

declare str_nat.simps [simp del]

definition str_int :: "int \<Rightarrow> string" where
  "str_int i = (if i < 0 then CHR ''-'' # str_nat (nat (- i)) else str_nat (nat i))"

fun py_str :: "val \<Rightarrow> string" where
  "py_str VNone = ''None''"
| "py_str (VBool b) = (if b then ''True'' else ''False'')"
| "py_str (VInt i) = str_int i"
| "py_str (VStr s) = s"

section \<open>IndexBuilder\<close>

text \<open>
  The FAISS index is an external library object. The model keeps what the code reads
  from it: its kind (a flat inner-product index, or an IVF index with its \<open>nlist\<close>
  and \<open>nprobe\<close>) and its rows in the order they were added, so that \<open>ntotal\<close> is
  the number of rows. The vectors have an arbitrary type \<open>'v\<close>. Calls into FAISS are
  taken to succeed.
\<close>

datatype index_kind = IndexFlatIP | IndexIVFFlat int int

record 'v faiss_index =
  kind :: index_kind
  rows :: "'v list"

definition ntotal :: "'v faiss_index \<Rightarrow> nat" where
  "ntotal ix = length (rows ix)"

definition index_add :: "'v faiss_index \<Rightarrow> 'v list \<Rightarrow> 'v faiss_index" where
  "index_add ix embeddings = ix\<lparr>rows := rows ix @ embeddings\<rparr>"

text \<open>
  The state of an \<open>IndexBuilder\<close>: \<open>self.index\<close> (\<open>None\<close> until built or loaded)
  and \<open>self.metadata\<close>. The embedding model is external: \<open>enc n t\<close> is the vector
  that its \<open>n\<close>-th invocation returns for the text \<open>t\<close>, and \<open>encode_calls\<close> counts
  the invocations of \<open>model.encode\<close> made so far.
\<close>

record 'v index_builder =
  index :: "'v faiss_index option"
  metadata :: "metadata_record list"
  encode_calls :: nat

definition new_index_builder :: "'v index_builder" where
  "new_index_builder = \<lparr>index = None, metadata = [], encode_calls = 0\<rparr>"

text \<open>\<open>documents[i:i + batch_size]\<close> for \<open>i\<close> in \<open>range(0, len(documents), batch_size)\<close>.\<close>

function batches :: "nat \<Rightarrow> 'a list \<Rightarrow> 'a list list" where
  "batches n xs = (if n = 0 \<or> xs = [] then [] else take n xs # batches n (drop n xs))"
  by pat_completeness auto
termination
  by (relation "measure (\<lambda>(n, xs). length xs)") auto

declare batches.simps [simp del]

text \<open>
  \<open>embed_documents\<close> with the default batch size 256: one \<open>model.encode\<close> call per
  batch, the results stacked by \<open>np.vstack\<close>, which raises \<open>ValueError\<close> on an empty
  list of batches. The result is the stacked rows and the new call count.
\<close>

fun encode_batches :: "(nat \<Rightarrow> string \<Rightarrow> 'v) \<Rightarrow> nat \<Rightarrow> string list list \<Rightarrow> 'v list list" where
  "encode_batches enc n [] = []"
| "encode_batches enc n (batch # bs) = map (enc n) batch # encode_batches enc (Suc n) bs"

definition embed_documents ::
  "(nat \<Rightarrow> string \<Rightarrow> 'v) \<Rightarrow> string list \<Rightarrow> 'v index_builder \<Rightarrow> py_error + ('v list \<times> 'v index_builder)" where
  "embed_documents enc documents b =
     (let all_embeddings = encode_batches enc (encode_calls b) (batches 256 documents)
      in if all_embeddings = [] then Inl ValueError
         else Inr (concat all_embeddings,
                   b\<lparr>encode_calls := encode_calls b + length all_embeddings\<rparr>))"

text \<open>\<open>embed_query\<close>: one \<open>model.encode\<close> call on the single query.\<close>

definition embed_query ::
  "(nat \<Rightarrow> string \<Rightarrow> 'v) \<Rightarrow> string \<Rightarrow> 'v index_builder \<Rightarrow> 'v \<times> 'v index_builder" where
  "embed_query enc query b = (enc (encode_calls b) query, b\<lparr>encode_calls := Suc (encode_calls b)\<rparr>)"

text \<open>
  \<open>build_index\<close>: the count check, the embeddings, a fresh index (IVF only when asked
  for and for more than 10000 documents), the rows added, \<open>self.metadata\<close> replaced.
\<close>

definition build_index ::
  "(nat \<Rightarrow> string \<Rightarrow> 'v) \<Rightarrow> string list \<Rightarrow> metadata_record list \<Rightarrow> bool \<Rightarrow> int
     \<Rightarrow> 'v index_builder \<Rightarrow> py_error + 'v index_builder" where
  "build_index enc documents md use_ivf nlist b =
     (if length documents \<noteq> length md then Inl ValueError
      else case embed_documents enc documents b of
             Inl e \<Rightarrow> Inl e
           | Inr (embeddings, b1) \<Rightarrow>
               let ix = (if use_ivf \<and> length documents > 10000
                         then \<lparr>kind = IndexIVFFlat nlist (min 10 nlist), rows = []\<rparr>
                         else \<lparr>kind = IndexFlatIP, rows = []\<rparr>)
               in Inr (b1\<lparr>index := Some (index_add ix embeddings), metadata := md\<rparr>))"

text \<open>
  \<open>add_documents\<close>: without an index it is \<open>build_index\<close> with the defaults;
  otherwise the new rows are added and \<open>self.metadata\<close> is extended.
\<close>

definition add_documents ::
  "(nat \<Rightarrow> string \<Rightarrow> 'v) \<Rightarrow> string list \<Rightarrow> metadata_record list
     \<Rightarrow> 'v index_builder \<Rightarrow> py_error + 'v index_builder" where
  "add_documents enc documents md b =
     (case index b of
        None \<Rightarrow> build_index enc documents md False 100 b
      | Some ix \<Rightarrow>
          (case embed_documents enc documents b of
             Inl e \<Rightarrow> Inl e
           | Inr (embeddings, b1) \<Rightarrow>
               Inr (b1\<lparr>index := Some (index_add ix embeddings), metadata := metadata b @ md\<rparr>)))"

text \<open>
  \<open>load\<close>. What the two files hold is an input: \<open>read_index\<close> is the result of
  \<open>faiss.read_index\<close> and \<open>read_metadata\<close> the result of opening and parsing the
  metadata file, each either the exception raised or the value read. The handlers
  follow the \<open>except\<close> clauses: only \<open>JSONDecodeError\<close> and the catch-all reset the
  state.
\<close>

definition load_failed :: "py_error \<Rightarrow> 'v index_builder \<Rightarrow> bool \<times> 'v index_builder" where
  "load_failed e b =
     (case e of
        FileNotFoundError \<Rightarrow> (False, b)
      | JSONDecodeError \<Rightarrow> (False, b\<lparr>index := None, metadata := []\<rparr>)
      | PermissionError \<Rightarrow> (False, b)
      | _ \<Rightarrow> (False, b\<lparr>index := None, metadata := []\<rparr>))"

definition load ::
  "(py_error + 'v faiss_index) \<Rightarrow> (py_error + metadata_record list)
     \<Rightarrow> 'v index_builder \<Rightarrow> bool \<times> 'v index_builder" where
  "load read_index read_metadata b =
     (case read_index of
        Inl e \<Rightarrow> load_failed e b
      | Inr ix \<Rightarrow>
          (let b1 = b\<lparr>index := Some ix\<rparr>
           in case read_metadata of
                Inl e \<Rightarrow> load_failed e b1
              | Inr md \<Rightarrow> (True, b1\<lparr>metadata := md\<rparr>)))"

definition is_ready :: "'v index_builder \<Rightarrow> bool" where
  "is_ready b = (case index b of None \<Rightarrow> False | Some ix \<Rightarrow> ntotal ix > 0)"

definition document_count :: "'v index_builder \<Rightarrow> nat" where
  "document_count b = (case index b of None \<Rightarrow> 0 | Some ix \<Rightarrow> ntotal ix)"

section \<open>Retriever\<close>

record retrieval_result =
  score :: real
  content :: string
  r_metadata :: metadata_record

record retrieval_metrics =
  m_query :: string
  num_results :: nat
  top_score :: real
  avg_score :: real
  retrieval_time_ms :: real

record 'v retriever =
  index_builder :: "'v index_builder"
  retrieval_k :: int
  max_context_chars :: int
  query_cache :: "(string \<times> 'v) list"
  metrics_history :: "retrieval_metrics list"

definition new_retriever :: "'v index_builder \<Rightarrow> int \<Rightarrow> int \<Rightarrow> 'v retriever" where
  "new_retriever b k m =
     \<lparr>index_builder = b, retrieval_k = k, max_context_chars = m,
      query_cache = [], metrics_history = []\<rparr>"

text \<open>
  \<open>TextProcessor.compute_hash\<close>: the first 12 characters of the MD5 hex digest. MD5 is
  the library's; \<open>md5_hex\<close> stands for \<open>hashlib.md5(text.encode()).hexdigest()\<close>.
\<close>

definition compute_hash :: "(string \<Rightarrow> string) \<Rightarrow> string \<Rightarrow> string" where
  "compute_hash md5_hex t = take 12 (md5_hex t)"

text \<open>
  \<open>Retriever._embed_query\<close>. On a miss the query is embedded and stored, and a cache
  of more than 1000 entries loses the key that \<open>next(iter(...))\<close> yields, the first in
  insertion order. The final \<open>self._query_cache[cache_key]\<close> is a dict lookup.
\<close>

definition embed_query_cached ::
  "(string \<Rightarrow> string) \<Rightarrow> (nat \<Rightarrow> string \<Rightarrow> 'v) \<Rightarrow> string \<Rightarrow> 'v retriever
     \<Rightarrow> (py_error + 'v) \<times> 'v retriever" where
  "embed_query_cached md5_hex enc query r =
     (let cache_key = compute_hash md5_hex query;
          r1 = (if \<not> dict_has (query_cache r) cache_key
                then (let (embedding, b1) = embed_query enc query (index_builder r);
                          cache1 = dict_set (query_cache r) cache_key embedding;
                          cache2 = (if length cache1 > 1000
                                    then (case cache1 of [] \<Rightarrow> cache1
                                          | oldest # _ \<Rightarrow> dict_del cache1 (fst oldest))
                                    else cache1)
                      in r\<lparr>index_builder := b1, query_cache := cache2\<rparr>)
                else r)
      in (dict_lookup (query_cache r1) cache_key, r1))"

definition clear_cache :: "'v retriever \<Rightarrow> 'v retriever" where
  "clear_cache r = r\<lparr>query_cache := []\<rparr>"

text \<open>
  \<open>x or default\<close> for an optional integer, as in \<open>k or self.retrieval_k\<close>:
  \<open>None\<close> and 0 are both falsy.
\<close>

definition py_or :: "int option \<Rightarrow> int \<Rightarrow> int" where
  "py_or k dflt = (case k of None \<Rightarrow> dflt | Some n \<Rightarrow> if n = 0 then dflt else n)"

text \<open>\<open>if filters\<close>: \<open>None\<close> and the empty dict are both falsy.\<close>

definition has_filters :: "(string \<times> val) list option \<Rightarrow> bool" where
  "has_filters filters = (case filters of None \<Rightarrow> False | Some fs \<Rightarrow> fs \<noteq> [])"

definition filters_match :: "metadata_record \<Rightarrow> (string \<times> val) list \<Rightarrow> bool" where
  "filters_match md fs = list_all (\<lambda>(key, value). py_eq (dict_get md key) value) fs"

text \<open>
  The content of a result: \<open>metadata.get("content", f"[Record: ...]")\<close> sliced to
  \<open>max_context_chars\<close>; slicing a value that is not a string raises \<open>TypeError\<close>.
\<close>

definition result_content :: "metadata_record \<Rightarrow> int \<Rightarrow> int \<Rightarrow> py_error + string" where
  "result_content md idx max_chars =
     (let dflt = ''[Record: '' @ py_str (dict_get_default md ''document_id'' (VInt idx)) @ '']''
      in case dict_get_default md ''content'' (VStr dflt) of
           VStr s \<Rightarrow> Inr (py_slice s 0 max_chars)
         | _ \<Rightarrow> Inl TypeError)"

text \<open>
  The loop over \<open>zip(indices[0], distances[0])\<close>, with the results collected so far.
\<close>

fun collect ::
  "metadata_record list \<Rightarrow> (string \<times> val) list option \<Rightarrow> real \<Rightarrow> int \<Rightarrow> int
     \<Rightarrow> (int \<times> real) list \<Rightarrow> retrieval_result list \<Rightarrow> py_error + retrieval_result list" where
  "collect mds filters min_score max_chars k [] results = Inr results"
| "collect mds filters min_score max_chars k ((idx, sc) # rest) results =
     (if idx = -1 then collect mds filters min_score max_chars k rest results
      else if sc < min_score then collect mds filters min_score max_chars k rest results
      else case py_index mds idx of
             Inl e \<Rightarrow> Inl e
           | Inr md \<Rightarrow>
               if has_filters filters \<and> \<not> filters_match md (the filters)
               then collect mds filters min_score max_chars k rest results
               else (case result_content md idx max_chars of
                       Inl e \<Rightarrow> Inl e
                     | Inr c \<Rightarrow>
                         let results' = results @ [\<lparr>score = sc, content = c, r_metadata = md\<rparr>]
                         in if int (length results') \<ge> k then Inr results'
                            else collect mds filters min_score max_chars k rest results'))"

text \<open>
  \<open>retrieve\<close>. The FAISS search is external: \<open>search ix q n\<close> is the list of
  (row index, score) pairs that \<open>index.search(q, n)\<close> returns for the index \<open>ix\<close>,
  or the exception it raises. \<open>elapsed\<close> is the measured time in milliseconds. Scores
  are IEEE doubles in the source and reals here. A call that raises yields the
  exception only: the state it had reached (the cache may hold the query by then) is
  not kept.
\<close>

definition retrieve ::
  "(string \<Rightarrow> string) \<Rightarrow> (nat \<Rightarrow> string \<Rightarrow> 'v)
     \<Rightarrow> ('v faiss_index \<Rightarrow> 'v \<Rightarrow> int \<Rightarrow> py_error + (int \<times> real) list) \<Rightarrow> real
     \<Rightarrow> string \<Rightarrow> int option \<Rightarrow> (string \<times> val) list option \<Rightarrow> real \<Rightarrow> 'v retriever
     \<Rightarrow> py_error + (retrieval_result list \<times> 'v retriever)" where
  "retrieve md5_hex enc search elapsed query k filters min_score r =
     (let k' = py_or k (retrieval_k r)
      in if \<not> is_ready (index_builder r) then Inr ([], r)
         else case embed_query_cached md5_hex enc query r of
                (Inl e, r1) \<Rightarrow> Inl e
              | (Inr query_embedding, r1) \<Rightarrow>
                  let search_k = (if has_filters filters then k' * 3 else k')
                  in case index (index_builder r1) of
                       None \<Rightarrow> Inl AttributeError
                     | Some ix \<Rightarrow>
                         (case search ix query_embedding search_k of
                            Inl e \<Rightarrow> Inl e
                          | Inr candidates \<Rightarrow>
                              (case collect (metadata (index_builder r1)) filters min_score
                                      (max_context_chars r1) k' candidates [] of
                                 Inl e \<Rightarrow> Inl e
                               | Inr results \<Rightarrow>
                                   let metrics =
                                     \<lparr>m_query = py_slice query 0 100,
                                      num_results = length results,
                                      top_score = (case results of [] \<Rightarrow> 0 | r0 # _ \<Rightarrow> score r0),
                                      avg_score = (if results = [] then 0
                                                   else sum_list (map score results) / real (length results)),
                                      retrieval_time_ms = elapsed\<rparr>
                                   in Inr (results, r1\<lparr>metrics_history := metrics_history r1 @ [metrics]\<rparr>))))"

section \<open>Context block and citations\<close>

text \<open>
  \<open>get_context_block\<close>: one numbered block per result, joined by a rule. Formatting a
  score with \<open>:.2f\<close> is left to \<open>fmt2\<close>.
\<close>

fun join :: "string \<Rightarrow> string list \<Rightarrow> string" where
  "join sep [] = []"
| "join sep [x] = x"
| "join sep (x # y # ys) = x @ sep @ join sep (y # ys)"

definition context_block_entry :: "(real \<Rightarrow> string) \<Rightarrow> bool \<Rightarrow> nat \<times> retrieval_result \<Rightarrow> string" where
  "context_block_entry fmt2 include_scores e =
     (let header = ''['' @ str_nat (fst e) @ ''] Document: ''
                   @ py_str (dict_get_default (r_metadata (snd e)) ''filename'' (VStr ''Unknown''));
          header' = (if include_scores then header @ '' (relevance: '' @ fmt2 (score (snd e)) @ '')''
                     else header)
      in header' @ [newline] @ content (snd e))"

definition get_context_block :: "(real \<Rightarrow> string) \<Rightarrow> retrieval_result list \<Rightarrow> bool \<Rightarrow> string" where
  "get_context_block fmt2 results include_scores =
     join ([newline, newline] @ ''---'' @ [newline, newline])
       (map (context_block_entry fmt2 include_scores) (zip [1..<Suc (length results)] results))"

text \<open>
  \<open>get_citations\<close>. \<open>meta.get('chunk_idx', 0) + 1\<close> raises \<open>TypeError\<close> unless the
  value is a number; \<open>round(score, 3)\<close> is left to \<open>round3\<close>.
\<close>

record citation =
  c_index :: nat
  c_document_id :: val
  c_filename :: val
  c_chunk :: string
  c_score :: real

definition py_add_one :: "val \<Rightarrow> py_error + int" where
  "py_add_one v =
     (case v of VInt n \<Rightarrow> Inr (n + 1) | VBool b \<Rightarrow> Inr ((if b then 1 else 0) + 1)
      | _ \<Rightarrow> Inl TypeError)"

definition make_citation :: "(real \<Rightarrow> real) \<Rightarrow> nat \<times> retrieval_result \<Rightarrow> py_error + citation" where
  "make_citation round3 e =
     (let meta = r_metadata (snd e)
      in case py_add_one (dict_get_default meta ''chunk_idx'' (VInt 0)) of
           Inl err \<Rightarrow> Inl err
         | Inr m \<Rightarrow>
             Inr \<lparr>c_index = fst e,
                  c_document_id = dict_get_default meta ''document_id'' (VStr ''N/A''),
                  c_filename = dict_get_default meta ''filename'' (VStr ''Unknown''),
                  c_chunk = str_int m @ ''/'' @ py_str (dict_get_default meta ''total_chunks'' (VInt 1)),
                  c_score = round3 (score (snd e))\<rparr>)"

fun collect_citations :: "(real \<Rightarrow> real) \<Rightarrow> (nat \<times> retrieval_result) list \<Rightarrow> py_error + citation list" where
  "collect_citations round3 [] = Inr []"
| "collect_citations round3 (e # es) =
     (case make_citation round3 e of
        Inl err \<Rightarrow> Inl err
      | Inr c \<Rightarrow> (case collect_citations round3 es of Inl err \<Rightarrow> Inl err | Inr cs \<Rightarrow> Inr (c # cs)))"

definition get_citations :: "(real \<Rightarrow> real) \<Rightarrow> retrieval_result list \<Rightarrow> py_error + citation list" where
  "get_citations round3 results = collect_citations round3 (zip [1..<Suc (length results)] results)"

section \<open>LLMGateway\<close>

text \<open>
  What the gateway reads of a completion: the content of each choice's message
  (\<open>None\<close> is possible) and the three token counts when \<open>usage\<close> is present.
\<close>

record raw_response =
  choices :: "string option list"
  resp_usage :: "(int \<times> int \<times> int) option"

record llm_response =
  llm_content :: string
  llm_model :: string
  usage :: "(int \<times> int \<times> int) option"
  latency_ms :: real
  llm_success :: bool
  llm_error :: "string option"

record llm_gateway =
  client :: bool
  model :: string
  max_tokens :: int

text \<open>
  The call through the Portkey client is external. \<open>call n\<close> is the outcome of the
  \<open>n\<close>-th pass through the \<open>try\<close> block up to the response: the text of the
  exception raised, or the response with the latency measured. The rate limiter only
  delays the call and is left out.
\<close>

type_synonym llm_call = "nat \<Rightarrow> string + raw_response \<times> real"

definition failure_response :: "string \<Rightarrow> string \<Rightarrow> llm_response" where
  "failure_response mdl err =
     \<lparr>llm_content = [], llm_model = mdl, usage = None, latency_ms = 0,
      llm_success = False, llm_error = Some err\<rparr>"

text \<open>
  The rest of the \<open>try\<close> block: a response without choices raises \<open>ValueError\<close>
  inside it, and \<open>content or ""\<close> turns a missing content into the empty string.
\<close>

definition try_attempt :: "string \<Rightarrow> string + raw_response \<times> real \<Rightarrow> string + llm_response" where
  "try_attempt mdl outcome =
     (case outcome of
        Inl e \<Rightarrow> Inl e
      | Inr (response, latency) \<Rightarrow>
          (case choices response of
             [] \<Rightarrow> Inl ''No choices in response''
           | c # _ \<Rightarrow>
               Inr \<lparr>llm_content = (case c of None \<Rightarrow> [] | Some s \<Rightarrow> s), llm_model = mdl,
                    usage = resp_usage response, latency_ms = latency,
                    llm_success = True, llm_error = None\<rparr>))"

text \<open>
  The \<open>for attempt in range(max_retries)\<close> loop. The result carries the response,
  the arguments of the \<open>time.sleep\<close> calls in order, and the number of calls made to
  the client.
\<close>

function generate_loop ::
  "llm_call \<Rightarrow> string \<Rightarrow> int \<Rightarrow> nat \<Rightarrow> nat list \<Rightarrow> llm_response \<times> nat list \<times> nat" where
  "generate_loop call mdl max_retries attempt sleeps =
     (if int attempt < max_retries
      then (case try_attempt mdl (call attempt) of
              Inr response \<Rightarrow> (response, sleeps, Suc attempt)
            | Inl e \<Rightarrow>
                if int attempt < max_retries - 1
                then generate_loop call mdl max_retries (Suc attempt) (sleeps @ [2 ^ attempt])
                else (failure_response mdl
                        (''LLM call failed after '' @ str_int max_retries @ '' attempts: '' @ e),
                      sleeps, Suc attempt))
      else (failure_response mdl ''No retry attempts configured'', sleeps, attempt))"
  by pat_completeness auto
termination
  by (relation "measure (\<lambda>(call, mdl, max_retries, attempt, sleeps). nat (max_retries - int attempt))")
    auto

declare generate_loop.simps [simp del]

text \<open>
  \<open>generate\<close>. \<open>llm n\<close> stands for the client call with the prompts, the token limit
  \<open>n\<close> and the temperature already supplied; \<open>max_tokens or self.max_tokens\<close> picks
  the limit.
\<close>

definition generate ::
  "(int \<Rightarrow> llm_call) \<Rightarrow> llm_gateway \<Rightarrow> int option \<Rightarrow> int \<Rightarrow> llm_response \<times> nat list \<times> nat" where
  "generate llm gw max_tokens_arg max_retries =
     (if \<not> client gw
      then (failure_response (model gw) ''LLM client not initialized. Check API key.'', [], 0)
      else let mt = py_or max_tokens_arg (max_tokens gw)
           in generate_loop (llm mt) (model gw) max_retries 0 [])"

definition attempt_fails :: "string + raw_response \<times> real \<Rightarrow> bool" where
  "attempt_fails outcome =
     (case outcome of Inl e \<Rightarrow> True | Inr (response, latency) \<Rightarrow> choices response = [])"

definition failure_text :: "string + raw_response \<times> real \<Rightarrow> string" where
  "failure_text outcome = (case outcome of Inl e \<Rightarrow> e | Inr _ \<Rightarrow> ''No choices in response'')"

section \<open>RAGPipeline\<close>

definition system_prompts :: "(string \<times> string) list" where
  "system_prompts =
     [(''default'', join [newline]
        [''You are a helpful research assistant for studying documents.'',
         ''You help users understand and analyze the content of their uploaded documents.'',
         '''',
         ''When answering:'',
         ''1. Use ONLY the provided CONTEXT to answer'',
         ''2. Cite specific documents and quote relevant passages'',
         ''3. If context is insufficient, clearly state what's missing'',
         ''4. Be precise and avoid speculation'',
         ''5. If the documents don't contain relevant information, say so'']),
      (''summary'', join [newline]
        [''Summarize the key information from the provided context.'',
         ''Focus on main themes, important details, and relevant patterns.'',
         ''Cite specific documents when possible.'']),
      (''analysis'', join [newline]
        [''Provide a detailed analysis of the information in the context.'',
         ''Look for patterns, connections, and significant insights.'',
         ''Support your analysis with specific references to the documents.''])]"

text \<open>
  The \<open>llm_response\<close> entry of a \<open>RAGResponse\<close> is a dict: empty, the stub
  \<open>{"content": "", "success": True}\<close>, or \<open>LLMResponse.to_dict()\<close>.
\<close>

datatype llm_dict = EmptyDict | StubDict | ToDict llm_response

record rag_response =
  answer :: string
  citations :: "citation list"
  sources :: "retrieval_result list"
  llm_response_dict :: llm_dict
  success :: bool
  error :: "string option"

text \<open>
  The external capabilities a query goes through: MD5, the embedding model, the FAISS
  search, the clock, the LLM client (given the two prompts, the token limit and the
  temperature), the two float formats and the text of an exception.
\<close>

record 'v env =
  e_md5_hex :: "string \<Rightarrow> string"
  e_enc :: "nat \<Rightarrow> string \<Rightarrow> 'v"
  e_search :: "'v faiss_index \<Rightarrow> 'v \<Rightarrow> int \<Rightarrow> py_error + (int \<times> real) list"
  e_elapsed :: real
  e_llm :: "string \<Rightarrow> string \<Rightarrow> int \<Rightarrow> real \<Rightarrow> llm_call"
  e_round3 :: "real \<Rightarrow> real"
  e_fmt2 :: "real \<Rightarrow> string"
  e_error_text :: "py_error \<Rightarrow> string"

text \<open>
  The pipeline's state. \<open>self.index_builder\<close> is the object the retriever holds, so
  the model keeps it inside the retriever only. The document processor plays no part
  in a query and is left out.
\<close>

record 'v pipeline =
  chunk_size :: int
  chunk_overlap :: int
  retriever :: "'v retriever"
  llm_gateway :: llm_gateway
  index_path :: "string option"
  metadata_path :: "string option"
  is_initialized :: bool

text \<open>The state \<open>__init__\<close> sets up before it tries to load an index.\<close>

definition new_pipeline ::
  "int \<Rightarrow> int \<Rightarrow> int \<Rightarrow> int \<Rightarrow> llm_gateway \<Rightarrow> string option \<Rightarrow> string option \<Rightarrow> 'v pipeline" where
  "new_pipeline cs ov k max_chars gw ipath mpath =
     \<lparr>chunk_size = cs, chunk_overlap = ov,
      retriever = new_retriever new_index_builder k max_chars,
      llm_gateway = gw, index_path = ipath, metadata_path = mpath, is_initialized = False\<rparr>"

text \<open>
  \<open>load_index\<close>: a path that is \<open>None\<close> or empty is falsy; \<open>index_exists\<close> and
  \<open>metadata_exists\<close> are the results of \<open>Path.exists\<close>.
\<close>

definition truthy_path :: "string option \<Rightarrow> bool" where
  "truthy_path path = (case path of None \<Rightarrow> False | Some s \<Rightarrow> s \<noteq> [])"

definition load_index ::
  "bool \<Rightarrow> bool \<Rightarrow> (py_error + 'v faiss_index) \<Rightarrow> (py_error + metadata_record list)
     \<Rightarrow> 'v pipeline \<Rightarrow> bool \<times> 'v pipeline" where
  "load_index index_exists metadata_exists read_index read_metadata p =
     (if truthy_path (index_path p) \<and> truthy_path (metadata_path p)
      then (if index_exists \<and> metadata_exists
            then (let (ok, b) = load read_index read_metadata (index_builder (retriever p));
                      p1 = p\<lparr>retriever := (retriever p)\<lparr>index_builder := b\<rparr>\<rparr>
                  in (ok, if ok then p1\<lparr>is_initialized := True\<rparr> else p1))
            else (False, p))
      else (False, p))"

text \<open>
  \<open>query\<close>. An exception of \<open>retrieve\<close> is caught and reported in the response; one
  raised while the citations are built is not caught. \<open>generate\<close> runs with its
  defaults: no token limit of its own, temperature 0.7, three attempts.
\<close>

definition query ::
  "'v env \<Rightarrow> string \<Rightarrow> int option \<Rightarrow> (string \<times> val) list option \<Rightarrow> string \<Rightarrow> 'v pipeline
     \<Rightarrow> py_error + (rag_response \<times> 'v pipeline)" where
  "query env question k filters system_prompt_key p =
     (if \<not> is_initialized p
      then Inr (\<lparr>answer = ''No documents have been indexed yet. Please upload some documents first.'',
                 citations = [], sources = [], llm_response_dict = EmptyDict, success = False,
                 error = Some ''Pipeline not initialized - no documents indexed''\<rparr>, p)
      else case retrieve (e_md5_hex env) (e_enc env) (e_search env) (e_elapsed env)
                  question k filters 0 (retriever p) of
             Inl e \<Rightarrow>
               Inr (\<lparr>answer = [], citations = [], sources = [], llm_response_dict = EmptyDict,
                     success = False,
                     error = Some (''Retrieval failed: '' @ e_error_text env e)\<rparr>, p)
           | Inr (results, r1) \<Rightarrow>
               let p1 = p\<lparr>retriever := r1\<rparr>
               in if results = []
                  then Inr (\<lparr>answer = ''No relevant information found in the indexed documents for your query.'',
                             citations = [], sources = [], llm_response_dict = StubDict,
                             success = True, error = None\<rparr>, p1)
                  else let context_block = get_context_block (e_fmt2 env) results False
                       in case get_citations (e_round3 env) results of
                            Inl e \<Rightarrow> Inl e
                          | Inr cits \<Rightarrow>
                              let system_prompt =
                                    (case map_of system_prompts system_prompt_key of
                                       None \<Rightarrow> the (map_of system_prompts ''default'')
                                     | Some s \<Rightarrow> s);
                                  user_prompt =
                                    ''QUESTION: '' @ question @ [newline, newline]
                                    @ ''CONTEXT:'' @ [newline] @ context_block @ [newline, newline]
                                    @ ''Provide a comprehensive answer based on the context above. ''
                                    @ ''Reference specific documents when possible.'';
                                  llm_resp = fst (generate (\<lambda>mt. e_llm env system_prompt user_prompt mt 0.7)
                                                   (llm_gateway p1) None 3)
                              in Inr (\<lparr>answer = llm_content llm_resp, citations = cits,
                                        sources = results, llm_response_dict = ToDict llm_resp,
                                        success = llm_success llm_resp,
                                        error = llm_error llm_resp\<rparr>, p1))"

definition pipeline_is_ready :: "'v pipeline \<Rightarrow> bool" where
  "pipeline_is_ready p \<longleftrightarrow> is_initialized p \<and> is_ready (index_builder (retriever p))"

definition pipeline_document_count :: "'v pipeline \<Rightarrow> nat" where
  "pipeline_document_count p = document_count (index_builder (retriever p))"

section \<open>Predicates and examples for the statements\<close>

text \<open>
  The parallel arrays are in step: the index holds as many rows as there are metadata
  records.
\<close>

definition in_sync :: "'v index_builder \<Rightarrow> bool" where
  "in_sync b \<longleftrightarrow> document_count b = length (metadata b)"

text \<open>
  The invariant of the query cache: distinct keys, as in any dict, and at most 1000
  entries.
\<close>

definition cache_ok :: "'v retriever \<Rightarrow> bool" where
  "cache_ok r \<longleftrightarrow> distinct (map fst (query_cache r)) \<and> length (query_cache r) \<le> 1000"

text \<open>A list of scores in descending order (equal neighbours allowed).\<close>

definition descending :: "real list \<Rightarrow> bool" where
  "descending xs \<longleftrightarrow> sorted_wrt (\<lambda>a b. b \<le> a) xs"

text \<open>
  A small corpus for concrete runs: five rows with their records, an identity in
  place of MD5, an embedding that returns the number of the model call that produced
  it, and a search that returns the best \<open>n\<close> of five candidates in descending
  order of score.
\<close>

definition example_metadata :: "metadata_record list" where
  "example_metadata =
     [[(''document_id'', VStr ''X''), (''content'', VStr ''alpha'')],
      [(''document_id'', VStr ''Y''), (''content'', VStr ''beta'')],
      [(''document_id'', VStr ''X''), (''content'', VStr ''gamma'')],
      [(''document_id'', VStr ''Y''), (''content'', VStr ''delta'')],
      [(''document_id'', VStr ''X''), (''content'', VStr ''epsilon'')]]"

definition example_builder :: "nat index_builder" where
  "example_builder =
     \<lparr>index = Some \<lparr>kind = IndexFlatIP, rows = [0, 1, 2, 3, 4]\<rparr>,
      metadata = example_metadata, encode_calls = 5\<rparr>"

definition example_md5 :: "string \<Rightarrow> string" where
  "example_md5 t = t"

definition example_enc :: "nat \<Rightarrow> string \<Rightarrow> nat" where
  "example_enc n t = n"

definition example_search :: "nat faiss_index \<Rightarrow> nat \<Rightarrow> int \<Rightarrow> py_error + (int \<times> real) list" where
  "example_search ix q n =
     Inr (take (nat n) [(0, 0.9), (1, 0.8), (2, 0.7), (3, 0.6), (4, 0.5)])"

definition example_retriever :: "nat retriever" where
  "example_retriever = new_retriever example_builder 4 3000"

text \<open>
  A cache at its capacity, a client whose every call raises, and an environment
  made of these examples.
\<close>

definition full_cache :: "(string \<times> nat) list" where
  "full_cache = map (\<lambda>i. (replicate (Suc i) CHR ''a'', i)) [0..<1000]"

definition failing_llm :: "int \<Rightarrow> llm_call" where
  "failing_llm mt n = Inl ''timeout''"

definition example_env :: "nat env" where
  "example_env =
     \<lparr>e_md5_hex = example_md5, e_enc = example_enc, e_search = example_search, e_elapsed = 0,
      e_llm = (\<lambda>system_prompt user_prompt mt temperature. failing_llm mt),
      e_round3 = (\<lambda>x. x), e_fmt2 = (\<lambda>x. ''0.00''), e_error_text = (\<lambda>e. ''error'')\<rparr>"

chapter \<open>Properties\<close>

section \<open>Properties of the chunker\<close>

subsection \<open>Short texts\<close>

lemma length_py_strip: "length (py_strip s) \<le> length s"
proof -
  have "length (py_strip s) \<le> length (dropWhile py_isspace s)"
    unfolding py_strip_def by (simp add: length_dropWhile_le order_trans [OF length_dropWhile_le])
  also have "\<dots> \<le> length s" by (rule length_dropWhile_le)
  finally show ?thesis .
qed

text \<open>
  C6. A text no longer than \<open>chunk_size\<close> gives exactly one chunk, the text with its
  surrounding white space removed, or no chunk at all when nothing but white space is
  left.
\<close>

theorem chunk_text_short:
  assumes "int (length T) \<le> cs"
  shows "chunk_text cs ov T = Some (if py_strip T = [] then [] else [py_strip T])"
proof -
  have "int (length (py_strip T)) \<le> cs"
    using assms length_py_strip [of T] by linarith
  then show ?thesis by (simp add: chunk_text_def)
qed

theorem chunk_text_short_witness:
  "int (length ''  Hello Wor '') \<le> 512
   \<and> chunk_text 512 128 ''  Hello Wor '' = Some [''Hello Wor'']"
  using chunk_text_short [of "''  Hello Wor ''" 512 128]
  by (simp add: py_strip_def py_isspace_def)

subsection \<open>Where a window is cut\<close>

lemma prefix_take_iff: "prefix m t \<longleftrightarrow> take (length m) t = m"
proof
  assume "prefix m t"
  then obtain zs where "t = m @ zs" by (auto simp: prefix_def)
  then show "take (length m) t = m" by simp
next
  assume "take (length m) t = m"
  then have "t = m @ drop (length m) t" by (metis append_take_drop_id)
  then show "prefix m t" unfolding prefix_def by blast
qed

lemma rfind_from_spec:
  "(rfind_from s m n = -1 \<and> (\<forall>i\<le>n. \<not> prefix m (drop i s)))
   \<or> (\<exists>i\<le>n. rfind_from s m n = int i \<and> prefix m (drop i s)
         \<and> (\<forall>j. i < j \<and> j \<le> n \<longrightarrow> \<not> prefix m (drop j s)))"
proof (induction n)
  case 0
  then show ?case by simp
next
  case (Suc n)
  show ?case
  proof (cases "prefix m (drop (Suc n) s)")
    case True
    then show ?thesis by auto
  next
    case False
    with Suc show ?thesis
      by (auto simp: le_Suc_eq)
  qed
qed

lemma occurs_at_le: "occurs_at s m j \<Longrightarrow> j \<le> length s"
  by (simp add: occurs_at_def)

lemma last_occ_iff: "last_occ s m i \<longleftrightarrow> occurs_at s m i \<and> (\<forall>j>i. \<not> occurs_at s m j)"
proof -
  have "(\<forall>j\<in>set [Suc i..<Suc (length s)]. \<not> occurs_at s m j) \<longleftrightarrow> (\<forall>j>i. \<not> occurs_at s m j)"
  proof
    assume a: "\<forall>j\<in>set [Suc i..<Suc (length s)]. \<not> occurs_at s m j"
    show "\<forall>j>i. \<not> occurs_at s m j"
    proof (intro allI impI notI)
      fix j assume "i < j" "occurs_at s m j"
      then have "j \<in> set [Suc i..<Suc (length s)]"
        using occurs_at_le [of s m j] by (simp del: upt_Suc)
      with a \<open>occurs_at s m j\<close> show False by blast
    qed
  next
    assume "\<forall>j>i. \<not> occurs_at s m j"
    then show "\<forall>j\<in>set [Suc i..<Suc (length s)]. \<not> occurs_at s m j"
      by (simp del: upt_Suc)
  qed
  then show ?thesis by (simp add: last_occ_def list_all_iff)
qed

lemma no_late_occ_iff: "no_late_occ cs s m \<longleftrightarrow> (\<forall>j. occurs_at s m j \<longrightarrow> 2 * int j \<le> cs)"
proof -
  have "j \<in> set [0..<Suc (length s)]" if "occurs_at s m j" for j
    using occurs_at_le [OF that] by (simp del: upt_Suc)
  then show ?thesis unfolding no_late_occ_def list_all_iff by blast
qed

lemma rfind_cases:
  "(rfind s m = -1 \<and> (\<forall>i. \<not> occurs_at s m i))
   \<or> (\<exists>i. rfind s m = int i \<and> last_occ s m i)"
proof -
  have occ: "occurs_at s m i \<longleftrightarrow> i \<le> length s \<and> prefix m (drop i s)" for i
    by (simp add: occurs_at_def prefix_take_iff)
  from rfind_from_spec [of s m "length s"] show ?thesis
    unfolding rfind_def last_occ_iff occ by blast
qed

lemma last_occ_unique:
  assumes "last_occ s m i" "last_occ s m j"
  shows "i = j"
proof (rule ccontr)
  assume "i \<noteq> j"
  then consider "i < j" | "j < i" by linarith
  then show False using assms unfolding last_occ_iff by cases blast+
qed

lemma rfind_last_occ:
  assumes "last_occ s m i"
  shows "rfind s m = int i"
proof -
  from assms have "occurs_at s m i" by (simp add: last_occ_iff)
  with rfind_cases [of s m] obtain k where k: "rfind s m = int k" "last_occ s m k"
    by blast
  from last_occ_unique [OF k(2) assms] k(1) show ?thesis by simp
qed

lemma rfind_no_late:
  assumes "no_late_occ cs s m"
  shows "rfind s m = -1 \<or> 2 * rfind s m \<le> cs"
proof -
  from rfind_cases [of s m] show ?thesis
  proof
    assume "rfind s m = -1 \<and> (\<forall>i. \<not> occurs_at s m i)"
    then show ?thesis by simp
  next
    assume "\<exists>i. rfind s m = int i \<and> last_occ s m i"
    then obtain k where k: "rfind s m = int k" "occurs_at s m k"
      by (auto simp: last_occ_iff)
    with assms have "2 * int k \<le> cs" by (simp add: no_late_occ_iff)
    with k(1) show ?thesis by simp
  qed
qed

lemma occurs_at_bound:
  assumes "occurs_at s m i"
  shows "i + length m \<le> length s"
proof -
  from assms have "length (take (length m) (drop i s)) = length m" and "i \<le> length s"
    by (simp_all add: occurs_at_def)
  then show ?thesis by simp
qed

lemma find_break_first:
  assumes "0 \<le> cs"
  shows "k < length ms \<Longrightarrow> last_occ chunk (ms ! k) p \<Longrightarrow> cs < 2 * int p
     \<Longrightarrow> (\<forall>j<k. no_late_occ cs chunk (ms ! j))
     \<Longrightarrow> find_break cs chunk ms = Some (take (Suc p) chunk)"
proof (induction ms arbitrary: k)
  case Nil
  then show ?case by simp
next
  case (Cons m ms)
  show ?case
  proof (cases k)
    case 0
    with Cons.prems have "rfind chunk m = int p" by (simp add: rfind_last_occ)
    with Cons.prems show ?thesis by (simp add: nat_add_distrib Suc_nat_eq_nat_zadd1)
  next
    case (Suc k')
    with Cons.prems have "no_late_occ cs chunk m" by auto
    from rfind_no_late [OF this] assms have "\<not> cs < 2 * rfind chunk m" by auto
    moreover have "find_break cs chunk ms = Some (take (Suc p) chunk)"
    proof (rule Cons.IH [of k'])
      show "k' < length ms" using Cons.prems Suc by simp
      show "last_occ chunk (ms ! k') p" using Cons.prems Suc by simp
      show "cs < 2 * int p" by fact
      show "\<forall>j<k'. no_late_occ cs chunk (ms ! j)"
        using Cons.prems(4) Suc by auto
    qed
    ultimately show ?thesis by simp
  qed
qed

lemma find_break_none:
  assumes "0 \<le> cs"
  shows "\<forall>m\<in>set ms. no_late_occ cs chunk m \<Longrightarrow> find_break cs chunk ms = None"
proof (induction ms)
  case Nil
  then show ?case by simp
next
  case (Cons m ms)
  then have "no_late_occ cs chunk m" by simp
  from rfind_no_late [OF this] assms have "\<not> cs < 2 * rfind chunk m" by auto
  with Cons show ?case by simp
qed

lemma find_break_Some:
  assumes "0 \<le> cs" "[] \<notin> set ms"
  shows "find_break cs chunk ms = Some c
     \<Longrightarrow> \<exists>p. c = take (Suc p) chunk \<and> cs < 2 * int p \<and> Suc p \<le> length chunk"
  using assms(2)
proof (induction ms)
  case Nil
  then show ?case by simp
next
  case (Cons m ms)
  show ?case
  proof (cases "cs < 2 * rfind chunk m")
    case False
    with Cons show ?thesis by simp
  next
    case True
    with assms(1) have "rfind chunk m \<noteq> -1" by auto
    with rfind_cases [of chunk m] obtain i where i: "rfind chunk m = int i" "last_occ chunk m i"
      by blast
    then have "occurs_at chunk m i" by (simp add: last_occ_iff)
    from occurs_at_bound [OF this] Cons.prems(2) have "Suc i \<le> length chunk"
      by (cases m) auto
    moreover from True Cons.prems(1) i(1) have "c = take (Suc i) chunk"
      by (simp add: nat_add_distrib Suc_nat_eq_nat_zadd1)
    ultimately show ?thesis using True i(1) by auto
  qed
qed

lemma markers_nonempty: "[] \<notin> set markers"
  by (simp add: markers_def)

text \<open>
  C3, as the code has it. A window that ends before the end of the text (with a
  \<open>chunk_size\<close> that is not negative) is cut by the first marker, in the order
  \<open>". "\<close>, \<open>"! "\<close>, \<open>"? "\<close>, newline, whose last occurrence in the window starts
  at an index strictly greater than half of \<open>chunk_size\<close>; the window keeps the
  characters up to and including the first character of that occurrence, and \<open>end\<close>
  moves there. A marker later in the order is not looked at, wherever it occurs. When no
  marker occurs beyond half of \<open>chunk_size\<close>, the window keeps its full length.
\<close>

theorem next_window_break:
  assumes "0 \<le> cs" and "start + cs < int (length T)"
  shows "(k < length markers \<longrightarrow> last_occ (py_slice T start (start + cs)) (markers ! k) p
            \<longrightarrow> cs < 2 * int p
            \<longrightarrow> (\<forall>j<k. no_late_occ cs (py_slice T start (start + cs)) (markers ! j))
            \<longrightarrow> next_window cs T start
                  = (take (Suc p) (py_slice T start (start + cs)), start + int (Suc p)))
       \<and> ((\<forall>m\<in>set markers. no_late_occ cs (py_slice T start (start + cs)) m)
            \<longrightarrow> next_window cs T start = (py_slice T start (start + cs), start + cs))"
proof (intro conjI impI)
  let ?w = "py_slice T start (start + cs)"
  assume k: "k < length markers" "last_occ ?w (markers ! k) p" "cs < 2 * int p"
    "\<forall>j<k. no_late_occ cs ?w (markers ! j)"
  from find_break_first [OF assms(1) k] have fb: "find_break cs ?w markers = Some (take (Suc p) ?w)" .
  from k(2) have "occurs_at ?w (markers ! k) p" by (simp add: last_occ_iff)
  from occurs_at_bound [OF this] have "p + length (markers ! k) \<le> length ?w" .
  moreover from k(1) markers_nonempty have "markers ! k \<noteq> []" by (metis nth_mem)
  ultimately have "Suc p \<le> length ?w" by (cases "markers ! k") auto
  then have "length (take (Suc p) ?w) = Suc p" by simp
  with fb assms(2) show "next_window cs T start = (take (Suc p) ?w, start + int (Suc p))"
    by (simp add: next_window_def Let_def)
next
  let ?w = "py_slice T start (start + cs)"
  assume "\<forall>m\<in>set markers. no_late_occ cs ?w m"
  from find_break_none [OF assms(1) this] assms(2)
  show "next_window cs T start = (?w, start + cs)"
    by (simp add: next_window_def Let_def)
qed

theorem next_window_break_witness:
  "next_window 12 ''ab. defg! hijklmnop'' 0 = (''ab. defg!'', 9)
   \<and> next_window 12 ''abcdefghijklmnopqrst'' 0 = (''abcdefghijkl'', 12)"
proof -
  let ?T = "''ab. defg! hijklmnop''"
  let ?U = "''abcdefghijklmnopqrst''"
  have w: "py_slice ?T 0 12 = ''ab. defg! hi''" by code_simp
  have u: "py_slice ?U 0 12 = ''abcdefghijkl''" by code_simp
  have len: "(0::int) \<le> 12" "0 + 12 < int (length ?T)" "0 + 12 < int (length ?U)"
    by simp_all
  have k: "(1::nat) < length markers" by (simp add: markers_def)
  have occ: "last_occ (py_slice ?T 0 (0 + 12)) (markers ! 1) 8" by code_simp
  have half: "(12::int) < 2 * int 8" by simp
  have "no_late_occ 12 (py_slice ?T 0 (0 + 12)) (markers ! 0)" by code_simp
  then have before: "\<forall>j<1. no_late_occ 12 (py_slice ?T 0 (0 + 12)) (markers ! j)" by simp
  have none: "\<forall>m\<in>set markers. no_late_occ 12 (py_slice ?U 0 (0 + 12)) m" by code_simp
  from next_window_break [OF len(1) len(2), of 1 8] k occ half before
  have "next_window 12 ?T 0 = (take (Suc 8) (py_slice ?T 0 (0 + 12)), 0 + int (Suc 8))"
    by blast
  moreover from next_window_break [OF len(1) len(3), of 0 0] none
  have "next_window 12 ?U 0 = (py_slice ?U 0 (0 + 12), 0 + 12)"
    by blast
  ultimately show ?thesis by (simp add: w u)
qed

text \<open>
  The claim asks for the last occurrence among all four markers. In the window
  \<open>"abcdefg. h! "\<close> of the text below (\<open>chunk_size\<close> 12) the last marker is
  \<open>"! "\<close> at index 10, beyond half of the window, yet the code cuts after the
  \<open>". "\<close> at index 7, the first marker in its order that qualifies.
\<close>

theorem next_window_last_marker_counterexample:
  "rfind (py_slice ''abcdefg. h! xyzuvw'' 0 12) ''. '' = 7
   \<and> rfind (py_slice ''abcdefg. h! xyzuvw'' 0 12) ''! '' = 10
   \<and> rfind (py_slice ''abcdefg. h! xyzuvw'' 0 12) ''? '' = -1
   \<and> rfind (py_slice ''abcdefg. h! xyzuvw'' 0 12) [newline] = -1
   \<and> next_window 12 ''abcdefg. h! xyzuvw'' 0 = (''abcdefg.'', 8)
   \<and> chunk_text 12 0 ''abcdefg. h! xyzuvw'' = Some [''abcdefg.'', ''h! xyzuvw'']"
  by code_simp

subsection \<open>Termination of the sliding window\<close>

lemma next_window_end:
  assumes "0 \<le> cs"
  shows "snd (next_window cs text start) = start + cs
     \<or> (\<exists>p. snd (next_window cs text start) = start + int (Suc p) \<and> cs < 2 * int p)"
proof (cases "start + cs < int (length text)")
  case False
  then show ?thesis by (simp add: next_window_def Let_def)
next
  case True
  show ?thesis
  proof (cases "find_break cs (py_slice text start (start + cs)) markers")
    case None
    with True show ?thesis by (simp add: next_window_def Let_def)
  next
    case (Some c)
    from find_break_Some [OF assms markers_nonempty Some]
    obtain p where "c = take (Suc p) (py_slice text start (start + cs))" "cs < 2 * int p"
      "Suc p \<le> length (py_slice text start (start + cs))" by blast
    then have "length c = Suc p" and "cs < 2 * int p" by simp_all
    with True Some show ?thesis by (simp add: next_window_def Let_def)
  qed
qed

lemma next_window_progress:
  assumes "1 \<le> cs" "ov < cs" "ov \<le> cs div 2 + 1"
  shows "start < snd (next_window cs text start) - ov"
proof -
  from assms have "0 \<le> cs" by simp
  from next_window_end [OF this, of "text" start] show ?thesis
  proof
    assume "snd (next_window cs text start) = start + cs"
    with assms show ?thesis by simp
  next
    assume "\<exists>p. snd (next_window cs text start) = start + int (Suc p) \<and> cs < 2 * int p"
    then obtain p where p: "snd (next_window cs text start) = start + int (Suc p)" "cs < 2 * int p"
      by blast
    from p(2) have "cs div 2 < int p" by linarith
    with assms(3) p(1) show ?thesis by simp
  qed
qed

lemma chunk_loop_terminates:
  assumes "1 \<le> cs" "ov < cs" "ov \<le> cs div 2 + 1"
  shows "\<exists>r. chunk_loop cs ov text start chunks = Some r"
proof (induction "nat (int (length text) - start)" arbitrary: start chunks rule: less_induct)
  case less
  show ?case
  proof (cases "start < int (length text)")
    case False
    then show ?thesis by (subst chunk_loop.simps) simp
  next
    case True
    let ?w = "next_window cs text start"
    let ?chunks = "if py_strip (fst ?w) \<noteq> [] then chunks @ [py_strip (fst ?w)] else chunks"
    show ?thesis
    proof (cases "int (length text) \<le> snd ?w")
      case True
      with \<open>start < int (length text)\<close> show ?thesis
        by (subst chunk_loop.simps) (simp add: Let_def)
    next
      case False
      from next_window_progress [OF assms, of start "text"]
      have "nat (int (length text) - (snd ?w - ov)) < nat (int (length text) - start)"
        using \<open>start < int (length text)\<close> by linarith
      from less [OF this, of ?chunks]
      obtain r where "chunk_loop cs ov text (snd ?w - ov) ?chunks = Some r" by blast
      with False \<open>start < int (length text)\<close> show ?thesis
        by (subst chunk_loop.simps) (simp add: Let_def)
    qed
  qed
qed

text \<open>
  C4, as the code has it. \<open>chunk_text\<close> returns for every text when \<open>chunk_size\<close>
  is at least 1 and the overlap is below both \<open>chunk_size\<close> and
  \<open>chunk_size div 2 + 2\<close>: then every pass moves \<open>start\<close> forward. The defaults
  512 and 128 are such a configuration.
\<close>

theorem chunk_text_terminates:
  assumes "1 \<le> cs" "ov < cs" "ov \<le> cs div 2 + 1"
  shows "\<exists>chunks. chunk_text cs ov text = Some chunks"
  using chunk_loop_terminates [OF assms] by (simp add: chunk_text_def Let_def)

theorem chunk_text_terminates_witness:
  "(1::int) \<le> 12 \<and> (3::int) < 12 \<and> (3::int) \<le> 12 div 2 + 1
   \<and> chunk_text 12 3 ''abcdefg. h! xyzuvw'' = Some [''abcdefg.'', ''fg. h! xyzuv'', ''zuvw'']"
proof -
  have "\<exists>chunks. chunk_text 12 3 ''abcdefg. h! xyzuvw'' = Some chunks"
    by (rule chunk_text_terminates) simp_all
  moreover have "chunk_text 12 3 ''abcdefg. h! xyzuvw''
      = Some [''abcdefg.'', ''fg. h! xyzuv'', ''zuvw'']"
    by code_simp
  ultimately show ?thesis by simp
qed

text \<open>
  A pass that leaves \<open>start\<close> where it was repeats forever: the text and the
  parameters do not change, only the list of chunks grows.
\<close>

lemma chunk_loop_cycle:
  assumes "start < int (length t)"
    and "snd (next_window cs t start) < int (length t)"
    and "snd (next_window cs t start) - ov = start"
  shows "chunk_loop cs ov t start chunks = None"
proof -
  have never: "\<not> (cs' = cs \<and> ov' = ov \<and> t' = t \<and> start' = start)"
    if "chunk_loop cs' ov' t' start' chunks' = Some y" for cs' ov' t' start' chunks' y
  proof (rule chunk_loop.raw_induct
      [where P = "\<lambda>cs' ov' t' start' chunks' y. \<not> (cs' = cs \<and> ov' = ov \<and> t' = t \<and> start' = start)",
        OF _ that])
    fix f :: "int \<Rightarrow> int \<Rightarrow> string \<Rightarrow> int \<Rightarrow> string list \<Rightarrow> string list option"
    fix cs' ov' t' start' chunks' y
    assume IH: "\<And>cs' ov' t' start' chunks' y. f cs' ov' t' start' chunks' = Some y
        \<Longrightarrow> \<not> (cs' = cs \<and> ov' = ov \<and> t' = t \<and> start' = start)"
    assume step: "(if start' < int (length t')
          then let w = next_window cs' t' start';
                   stripped_chunk = py_strip (fst w);
                   chunks'' = if stripped_chunk \<noteq> [] then chunks' @ [stripped_chunk] else chunks'
               in if int (length t') \<le> snd w then Some chunks''
                  else f cs' ov' t' (snd w - ov') chunks''
          else Some chunks') = Some y"
    show "\<not> (cs' = cs \<and> ov' = ov \<and> t' = t \<and> start' = start)"
    proof
      assume a: "cs' = cs \<and> ov' = ov \<and> t' = t \<and> start' = start"
      with step assms obtain c where "f cs ov t start c = Some y"
        by (simp add: Let_def split: if_splits)
      from IH [OF this] show False by simp
    qed
  qed
  show ?thesis
  proof (cases "chunk_loop cs ov t start chunks")
    case None
    then show ?thesis .
  next
    case (Some y)
    from never [OF this] show ?thesis by simp
  qed
qed

text \<open>
  With the overlap equal to \<open>chunk_size\<close> the loop does not return: nothing clamps
  the overlap, and \<open>start\<close> is 0 again after the first pass.
\<close>

theorem chunk_text_overlap_loops: "chunk_text 4 4 ''abcdefghij'' = None"
proof -
  have "next_window 4 ''abcdefghij'' 0 = (''abcd'', 4)" by code_simp
  then have "chunk_loop 4 4 ''abcdefghij'' 0 [] = None"
    by (intro chunk_loop_cycle) simp_all
  moreover have "py_strip ''abcdefghij'' = ''abcdefghij''" by code_simp
  ultimately show ?thesis by (simp add: chunk_text_def)
qed

text \<open>
  An overlap below \<open>chunk_size\<close> is not enough either: a window cut at a marker is
  shorter than \<open>chunk_size\<close>, and here the cut window has exactly the overlap's length.
\<close>

lemma chunk_text_small_overlap_loops: "chunk_text 10 7 ''abcdef. ghijklmnop'' = None"
proof -
  have "next_window 10 ''abcdef. ghijklmnop'' 0 = (''abcdef.'', 7)" by code_simp
  then have "chunk_loop 10 7 ''abcdef. ghijklmnop'' 0 [] = None"
    by (intro chunk_loop_cycle) simp_all
  moreover have "py_strip ''abcdef. ghijklmnop'' = ''abcdef. ghijklmnop''" by code_simp
  ultimately show ?thesis by (simp add: chunk_text_def)
qed

section \<open>Properties of the index builder\<close>

subsection \<open>Index rows and metadata records\<close>

lemma length_concat_encode_batches:
  "length (concat (encode_batches enc n bs)) = length (concat bs)"
  by (induction bs arbitrary: n) simp_all

lemma concat_batches: "0 < n \<Longrightarrow> concat (batches n xs) = xs"
proof (induction n xs rule: batches.induct)
  case (1 n xs)
  then show ?case by (subst batches.simps) simp
qed

lemma embed_documents_length:
  assumes "embed_documents enc documents b = Inr (embeddings, b1)"
  shows "length embeddings = length documents \<and> index b1 = index b \<and> metadata b1 = metadata b"
proof -
  have "length (concat (batches 256 documents)) = length documents"
    by (simp add: concat_batches)
  with assms show ?thesis
    by (auto simp: embed_documents_def Let_def length_concat_encode_batches split: if_splits)
qed

lemma build_index_in_sync:
  assumes "build_index enc documents md use_ivf nlist b = Inr b'"
  shows "in_sync b'"
proof -
  from assms obtain embeddings b1 where e: "embed_documents enc documents b = Inr (embeddings, b1)"
    and len: "length documents = length md"
    by (auto simp: build_index_def split: if_splits sum.splits)
  from embed_documents_length [OF e] len e assms show ?thesis
    by (auto simp: build_index_def in_sync_def document_count_def ntotal_def index_add_def Let_def
        split: if_splits)
qed

lemma add_documents_in_sync:
  assumes "add_documents enc documents md b = Inr b'" "in_sync b" "length documents = length md"
  shows "in_sync b'"
proof (cases "index b")
  case None
  with assms(1) show ?thesis by (simp add: add_documents_def build_index_in_sync)
next
  case (Some ix)
  with assms(1) obtain embeddings b1 where e: "embed_documents enc documents b = Inr (embeddings, b1)"
    by (auto simp: add_documents_def split: sum.splits)
  from embed_documents_length [OF e] e assms Some show ?thesis
    by (auto simp: add_documents_def in_sync_def document_count_def ntotal_def index_add_def)
qed

lemma build_index_mismatch:
  "length documents \<noteq> length md \<Longrightarrow> build_index enc documents md use_ivf nlist b = Inl ValueError"
  by (simp add: build_index_def)

lemma add_documents_mismatch_without_index:
  "index b = None \<Longrightarrow> length documents \<noteq> length md
     \<Longrightarrow> add_documents enc documents md b = Inl ValueError"
  by (simp add: add_documents_def build_index_def)

text \<open>
  C2. The claim asks that every successful \<open>build_index\<close> or \<open>add_documents\<close>, with
  any documents and any metadata records, leaves as many rows as records, a call with
  differing counts failing with a validation error. \<open>build_index\<close> checks the counts,
  and so does \<open>add_documents\<close> while there is no index; with an index in place
  \<open>add_documents\<close> checks nothing. Here an index is built from one document and one
  record, and one more document is then added with no record: the call succeeds and
  leaves two rows beside one record.
\<close>

theorem add_documents_mismatch_desync:
  "(case build_index enc [''a''] [[(''document_id'', VStr ''d1'')]] False 100 new_index_builder of
      Inl e \<Rightarrow> False
    | Inr b \<Rightarrow>
        in_sync b \<and>
        (case add_documents enc [''b''] [] b of
           Inl e \<Rightarrow> False
         | Inr b' \<Rightarrow> document_count b' = 2 \<and> length (metadata b') = 1 \<and> \<not> in_sync b'))"
  by (simp add: build_index_def add_documents_def embed_documents_def new_index_builder_def
      in_sync_def document_count_def ntotal_def index_add_def Let_def batches.simps)

subsection \<open>Restoring an index\<close>

lemma load_failure_returns_false:
  "read_index = Inl e \<or> read_metadata = Inl e' \<Longrightarrow> fst (load read_index read_metadata b) = False"
  by (auto simp: load_def load_failed_def Let_def split: sum.splits py_error.splits)

text \<open>
  The handlers for corrupted metadata and for any other exception leave the builder
  empty, whichever of the two reads failed.
\<close>

lemma load_failed_resets:
  assumes "e \<noteq> FileNotFoundError" "e \<noteq> PermissionError"
  shows "load_failed e b = (False, b\<lparr>index := None, metadata := []\<rparr>)"
  using assms by (cases e) (simp_all add: load_failed_def)

lemma load_reset_not_ready:
  "\<not> is_ready (b\<lparr>index := None, metadata := []\<rparr>)
   \<and> document_count (b\<lparr>index := None, metadata := []\<rparr>) = 0"
  by (simp add: is_ready_def document_count_def)

text \<open>
  C1. The claim asks that every failed \<open>load\<close> returns false and leaves index and
  metadata reset, so that \<open>is_ready\<close> is false and \<open>document_count\<close> is 0. The
  handlers for \<open>FileNotFoundError\<close> and \<open>PermissionError\<close> return false without the
  reset. On a fresh builder, with an index file that holds one vector and a metadata
  file that cannot be opened, \<open>load\<close> returns false and keeps the index it has just
  read: \<open>is_ready\<close> is true, \<open>document_count\<close> is 1, and there is no metadata.
\<close>

theorem load_failure_keeps_index:
  "(case load (Inr \<lparr>kind = IndexFlatIP, rows = [v]\<rparr>) (Inl PermissionError) new_index_builder of
      (ok, b) \<Rightarrow> \<not> ok \<and> is_ready b \<and> document_count b = 1 \<and> metadata b = [])
   \<and> (case load (Inr \<lparr>kind = IndexFlatIP, rows = [v]\<rparr>) (Inl FileNotFoundError) new_index_builder of
      (ok, b) \<Rightarrow> \<not> ok \<and> is_ready b \<and> document_count b = 1 \<and> metadata b = [])"
  by (simp add: load_def load_failed_def new_index_builder_def is_ready_def document_count_def
      ntotal_def Let_def)

section \<open>Properties of the retriever\<close>

subsection \<open>The query cache\<close>

lemma dict_set_new: "\<not> dict_has d k \<Longrightarrow> dict_set d k v = d @ [(k, v)]"
  by (induction d) (auto simp: dict_has_def)

lemma dict_del_first:
  assumes "distinct (map fst (p # ps))"
  shows "dict_del (p # ps) (fst p) = ps"
proof -
  from assms have "fst p \<notin> fst ` set ps" by simp
  then have "\<forall>x\<in>set ps. fst x \<noteq> fst p" by (metis imageI)
  then have "filter (\<lambda>x. fst x \<noteq> fst p) ps = ps" by (simp add: filter_id_conv)
  then show ?thesis by (simp add: dict_del_def)
qed

lemma dict_lookup_has:
  assumes "dict_has d k"
  shows "\<exists>v. dict_lookup d k = Inr v"
proof -
  from assms have "k \<in> dom (map_of d)" by (simp add: dict_has_def dom_map_of_conv_image_fst)
  then obtain v where "map_of d k = Some v" by blast
  then show ?thesis by (simp add: dict_lookup_def)
qed

lemma dict_lookup_last:
  assumes "\<not> dict_has d k"
  shows "dict_lookup (d @ [(k, v)]) k = Inr v"
proof -
  from assms have "map_of d k = None"
    by (simp add: dict_has_def map_of_eq_None_iff)
  then show ?thesis by (simp add: dict_lookup_def map_add_def)
qed

lemma dict_lookup_tl_last:
  assumes "\<not> dict_has d k" "d \<noteq> []"
  shows "dict_lookup (tl d @ [(k, v)]) k = Inr v"
proof -
  from assms have "\<not> dict_has (tl d) k"
    by (cases d) (auto simp: dict_has_def)
  then show ?thesis by (rule dict_lookup_last)
qed

text \<open>The cache after a miss, in a cache that satisfies the invariant.\<close>

lemma embed_query_cached_miss:
  assumes "cache_ok r" "\<not> dict_has (query_cache r) (compute_hash md5_hex q)"
  shows "embed_query_cached md5_hex enc q r =
     (Inr (enc (encode_calls (index_builder r)) q),
      r\<lparr>index_builder := (index_builder r)\<lparr>encode_calls := Suc (encode_calls (index_builder r))\<rparr>,
        query_cache := (if length (query_cache r) = 1000
                        then tl (query_cache r) @ [(compute_hash md5_hex q, enc (encode_calls (index_builder r)) q)]
                        else query_cache r @ [(compute_hash md5_hex q, enc (encode_calls (index_builder r)) q)])\<rparr>)"
proof -
  let ?k = "compute_hash md5_hex q"
  let ?v = "enc (encode_calls (index_builder r)) q"
  let ?c = "query_cache r"
  have set: "dict_set ?c ?k ?v = ?c @ [(?k, ?v)]" using assms(2) by (rule dict_set_new)
  show ?thesis
  proof (cases "length ?c = 1000")
    case True
    then obtain p ps where c: "?c = p # ps" by (cases ?c) auto
    from assms c have "distinct (map fst (p # (ps @ [(?k, ?v)])))"
      by (auto simp: cache_ok_def dict_has_def)
    from dict_del_first [OF this] have del: "dict_del (p # ps @ [(?k, ?v)]) (fst p) = ps @ [(?k, ?v)]"
      by simp
    have look: "dict_lookup (ps @ [(?k, ?v)]) ?k = Inr ?v"
      using dict_lookup_tl_last [OF assms(2), of ?v] c by simp
    from True assms(2) set c del look show ?thesis
      by (simp add: embed_query_cached_def embed_query_def Let_def)
  next
    case False
    with assms(1) have "length ?c < 1000" by (simp add: cache_ok_def)
    with assms(2) set dict_lookup_last [OF assms(2), of ?v] show ?thesis
      by (simp add: embed_query_cached_def embed_query_def Let_def)
  qed
qed

lemma embed_query_cached_hit:
  assumes "dict_has (query_cache r) (compute_hash md5_hex q)"
  shows "embed_query_cached md5_hex enc q r
     = (dict_lookup (query_cache r) (compute_hash md5_hex q), r)"
  using assms by (simp add: embed_query_cached_def Let_def)

lemma cache_ok_embed_query_cached:
  assumes "cache_ok r"
  shows "cache_ok (snd (embed_query_cached md5_hex enc q r))"
proof (cases "dict_has (query_cache r) (compute_hash md5_hex q)")
  case True
  with assms show ?thesis by (simp add: embed_query_cached_hit)
next
  case False
  show ?thesis
  proof (cases "length (query_cache r) = 1000")
    case True
    then obtain p ps where "query_cache r = p # ps" by (cases "query_cache r") auto
    with assms False True show ?thesis
      by (auto simp: embed_query_cached_miss cache_ok_def dict_has_def)
  next
    case False
    with assms \<open>\<not> dict_has (query_cache r) (compute_hash md5_hex q)\<close> show ?thesis
      by (auto simp: embed_query_cached_miss cache_ok_def dict_has_def)
  qed
qed

lemma cache_ok_new: "cache_ok (new_retriever b k m)"
  by (simp add: cache_ok_def new_retriever_def)

lemma cache_ok_clear: "cache_ok (clear_cache r)"
  by (simp add: cache_ok_def clear_cache_def)

text \<open>
  C8. In a cache that satisfies its invariant (which holds for a new retriever, after
  \<open>clear_cache\<close>, and again after every call), embedding a query and then embedding
  it again returns the same vector both times, the one stored under the hash of the
  query text. The second call changes nothing: the retriever is the same and the
  embedding model has not been called again. The first call calls the model only on a
  miss. Afterwards the cache still has distinct keys and at most 1000 entries; a miss
  in a cache of 1000 entries drops the entry inserted first and appends the new one.
\<close>

theorem embed_query_cached_twice:
  assumes "cache_ok r"
  shows "case embed_query_cached md5_hex enc q r of (res1, r1) \<Rightarrow>
         case embed_query_cached md5_hex enc q r1 of (res2, r2) \<Rightarrow>
           (\<exists>v. res1 = Inr v \<and> res2 = Inr v
                \<and> dict_lookup (query_cache r1) (compute_hash md5_hex q) = Inr v)
           \<and> r2 = r1
           \<and> encode_calls (index_builder r2) = encode_calls (index_builder r1)
           \<and> encode_calls (index_builder r1) =
               (if dict_has (query_cache r) (compute_hash md5_hex q)
                then encode_calls (index_builder r) else Suc (encode_calls (index_builder r)))
           \<and> dict_has (query_cache r1) (compute_hash md5_hex q)
           \<and> cache_ok r1
           \<and> query_cache r1 =
               (let key = compute_hash md5_hex q;
                    v = enc (encode_calls (index_builder r)) q;
                    c = query_cache r
                in if dict_has c key then c
                   else if length c = 1000 then tl c @ [(key, v)]
                   else c @ [(key, v)])"
proof (cases "dict_has (query_cache r) (compute_hash md5_hex q)")
  case True
  from dict_lookup_has [OF True] obtain v where "dict_lookup (query_cache r) (compute_hash md5_hex q) = Inr v"
    by blast
  with True assms show ?thesis
    by (simp add: embed_query_cached_hit Let_def)
next
  case False
  let ?k = "compute_hash md5_hex q"
  let ?v = "enc (encode_calls (index_builder r)) q"
  let ?c' = "if length (query_cache r) = 1000 then tl (query_cache r) @ [(?k, ?v)]
             else query_cache r @ [(?k, ?v)]"
  define r1 where "r1 = r\<lparr>index_builder := (index_builder r)\<lparr>encode_calls := Suc (encode_calls (index_builder r))\<rparr>,
        query_cache := ?c'\<rparr>"
  have qc: "query_cache r1 = ?c'" by (simp add: r1_def)
  have first: "embed_query_cached md5_hex enc q r = (Inr ?v, r1)"
    unfolding r1_def using embed_query_cached_miss [OF assms False] .
  have has: "dict_has (query_cache r1) ?k" by (simp add: qc dict_has_def)
  have look: "dict_lookup (query_cache r1) ?k = Inr ?v"
  proof (cases "length (query_cache r) = 1000")
    case True
    then have "query_cache r \<noteq> []" by auto
    from dict_lookup_tl_last [OF False this] True show ?thesis by (simp add: qc)
  next
    case False
    with dict_lookup_last [OF \<open>\<not> dict_has (query_cache r) ?k\<close>] show ?thesis by (simp add: qc)
  qed
  have ok: "cache_ok r1"
  proof (cases "length (query_cache r) = 1000")
    case True
    then obtain p ps where c: "query_cache r = p # ps" by (cases "query_cache r") auto
    with assms False True show ?thesis by (auto simp: cache_ok_def dict_has_def qc)
  next
    case False
    with assms \<open>\<not> dict_has (query_cache r) ?k\<close> show ?thesis
      by (auto simp: cache_ok_def dict_has_def qc)
  qed
  have second: "embed_query_cached md5_hex enc q r1 = (Inr ?v, r1)"
    using embed_query_cached_hit [OF has] look by simp
  have final: "query_cache r1 =
               (let key = compute_hash md5_hex q;
                    v = enc (encode_calls (index_builder r)) q;
                    c = query_cache r
                in if dict_has c key then c
                   else if length c = 1000 then tl c @ [(key, v)]
                   else c @ [(key, v)])"
    using False qc by (simp add: Let_def)
  have calls: "encode_calls (index_builder r1) =
               (if dict_has (query_cache r) (compute_hash md5_hex q)
                then encode_calls (index_builder r) else Suc (encode_calls (index_builder r)))"
    using False by (simp add: r1_def)
  from ok has final look calls show ?thesis
    by (simp only: first second prod.case) blast
qed

lemma full_cache_ok: "distinct (map fst full_cache) \<and> length full_cache = 1000"
proof -
  have "inj_on (\<lambda>i. replicate (Suc i) CHR ''a'') A" for A :: "nat set"
    by (rule inj_onI) (drule arg_cong [where f = length], simp)
  then show ?thesis
    by (simp add: full_cache_def comp_def distinct_map)
qed

lemma full_cache_no_x: "\<not> dict_has full_cache ''x''"
  by (auto simp: dict_has_def full_cache_def)

theorem embed_query_cached_twice_witness:
  "cache_ok (new_retriever example_builder 4 3000\<lparr>query_cache := full_cache\<rparr>)
   \<and> (case embed_query_cached example_md5 example_enc ''x''
              (new_retriever example_builder 4 3000\<lparr>query_cache := full_cache\<rparr>) of
        (res1, r1) \<Rightarrow>
          case embed_query_cached example_md5 example_enc ''x'' r1 of
            (res2, r2) \<Rightarrow>
              res1 = Inr 5 \<and> res2 = Inr 5 \<and> r2 = r1
              \<and> encode_calls (index_builder r2) = 6
              \<and> length (query_cache r1) = 1000
              \<and> query_cache r1 = tl full_cache @ [(''x'', 5)])"
proof -
  let ?r = "new_retriever example_builder 4 3000\<lparr>query_cache := full_cache\<rparr>"
  have ok: "cache_ok ?r" using full_cache_ok by (simp add: cache_ok_def)
  have k: "compute_hash example_md5 ''x'' = ''x''" by (simp add: compute_hash_def example_md5_def)
  have c: "query_cache ?r = full_cache" by simp
  have n: "encode_calls (index_builder ?r) = 5"
    by (simp add: new_retriever_def example_builder_def)
  have l: "dict_lookup (tl full_cache @ [(''x'', 5)]) ''x'' = Inr 5"
    using full_cache_no_x full_cache_ok by (intro dict_lookup_tl_last) auto
  from embed_query_cached_twice [OF ok, where md5_hex = example_md5 and enc = example_enc and q = "''x''"]
    full_cache_ok full_cache_no_x l
  have "case embed_query_cached example_md5 example_enc ''x'' ?r of
        (res1, r1) \<Rightarrow>
          case embed_query_cached example_md5 example_enc ''x'' r1 of
            (res2, r2) \<Rightarrow>
              res1 = Inr 5 \<and> res2 = Inr 5 \<and> r2 = r1
              \<and> encode_calls (index_builder r2) = 6
              \<and> length (query_cache r1) = 1000
              \<and> query_cache r1 = tl full_cache @ [(''x'', 5)]"
    unfolding k c n
    by (auto simp: Let_def example_enc_def split: prod.splits)
  with ok show ?thesis by blast
qed

subsection \<open>Filtered retrieval\<close>

lemmas ex_defs = retrieve_def py_or_def is_ready_def ntotal_def embed_query_cached_def
  compute_hash_def dict_has_def embed_query_def dict_lookup_def has_filters_def py_index_def
  filters_match_def dict_get_def dict_get_default_def result_content_def py_slice_def py_bound_def
  Let_def new_retriever_def example_metadata_def example_builder_def example_md5_def
  example_enc_def example_search_def example_retriever_def

lemma collect_filters:
  assumes "has_filters filters"
  shows "collect mds filters ms mc k cands acc = Inr results
     \<Longrightarrow> \<forall>res\<in>set acc. filters_match (r_metadata res) (the filters)
     \<Longrightarrow> \<forall>res\<in>set results. filters_match (r_metadata res) (the filters)"
proof (induction cands arbitrary: acc)
  case Nil
  then show ?case by simp
next
  case (Cons c cands)
  obtain idx sc where c: "c = (idx, sc)" by (cases c)
  from Cons.prems assms show ?case
    unfolding c
    by (auto simp: Let_def split: if_splits sum.splits dest!: Cons.IH)
qed

lemma sorted_wrt_subseq:
  "subseq xs ys \<Longrightarrow> sorted_wrt P ys \<Longrightarrow> sorted_wrt P xs"
proof (induction rule: list_emb.induct)
  case (list_emb_Nil ys)
  then show ?case by simp
next
  case (list_emb_Cons xs ys y)
  then show ?case by simp
next
  case (list_emb_Cons2 x y xs ys)
  have "set xs \<subseteq> set ys"
  proof
    fix z assume "z \<in> set xs"
    with list_emb_Cons2.hyps(2) show "z \<in> set ys" by (auto elim: list_emb_set)
  qed
  with list_emb_Cons2 show ?case by auto
qed

lemma descending_subseq: "subseq xs ys \<Longrightarrow> descending ys \<Longrightarrow> descending xs"
  unfolding descending_def by (rule sorted_wrt_subseq)

lemma collect_length_max:
  "collect mds filters ms mc k cands acc = Inr results
     \<Longrightarrow> int (length acc) < max 1 k \<Longrightarrow> int (length results) \<le> max 1 k"
proof (induction cands arbitrary: acc)
  case Nil
  then show ?case by simp
next
  case (Cons c cands)
  obtain idx sc where c: "c = (idx, sc)" by (cases c)
  consider (skip) "collect mds filters ms mc k cands acc = Inr results"
    | (last) x where "results = acc @ [x]"
    | (more) x where "int (length (acc @ [x])) < k"
        "collect mds filters ms mc k cands (acc @ [x]) = Inr results"
    using Cons.prems(1) unfolding c
    by (auto simp: Let_def split: if_splits sum.splits)
  then show ?case
  proof cases
    case skip
    from Cons.IH [OF this Cons.prems(2)] show ?thesis .
  next
    case last
    with Cons.prems(2) show ?thesis by simp
  next
    case more
    from more(1) have "int (length (acc @ [x])) < max 1 k" by simp
    from Cons.IH [OF more(2) this] show ?thesis .
  qed
qed

lemma collect_rows:
  "collect mds filters ms mc k cands acc = Inr results
     \<Longrightarrow> \<exists>sub. subseq sub cands
           \<and> map score results = map score acc @ map snd sub
           \<and> map (\<lambda>res. Inr (r_metadata res)) results
               = map (\<lambda>res. Inr (r_metadata res)) acc @ map (\<lambda>c. py_index mds (fst c)) sub"
proof (induction cands arbitrary: acc)
  case Nil
  then show ?case by simp
next
  case (Cons c cands)
  obtain idx sc where c: "c = (idx, sc)" by (cases c)
  consider (skip) "collect mds filters ms mc k cands acc = Inr results"
    | (last) md ct where "py_index mds idx = Inr md"
        "results = acc @ [\<lparr>score = sc, content = ct, r_metadata = md\<rparr>]"
    | (more) md ct where "py_index mds idx = Inr md"
        "collect mds filters ms mc k cands (acc @ [\<lparr>score = sc, content = ct, r_metadata = md\<rparr>]) = Inr results"
    using Cons.prems unfolding c
    by (auto simp: Let_def split: if_splits sum.splits)
  then show ?case
  proof cases
    case skip
    from Cons.IH [OF this] obtain sub where "subseq sub cands"
      "map score results = map score acc @ map snd sub"
      "map (\<lambda>res. Inr (r_metadata res)) results
         = map (\<lambda>res. Inr (r_metadata res)) acc @ map (\<lambda>c. py_index mds (fst c)) sub"
      by blast
    then show ?thesis by (intro exI [of _ sub]) (auto simp: c)
  next
    case last
    then show ?thesis by (intro exI [of _ "[c]"]) (simp add: c)
  next
    case more
    from Cons.IH [OF more(2)] obtain sub where "subseq sub cands"
      "map score results = map score (acc @ [\<lparr>score = sc, content = ct, r_metadata = md\<rparr>]) @ map snd sub"
      "map (\<lambda>res. Inr (r_metadata res)) results
         = map (\<lambda>res. Inr (r_metadata res)) (acc @ [\<lparr>score = sc, content = ct, r_metadata = md\<rparr>])
           @ map (\<lambda>c. py_index mds (fst c)) sub"
      by blast
    with more(1) show ?thesis by (intro exI [of _ "c # sub"]) (simp add: c)
  qed
qed

lemma embed_query_cached_keeps:
  assumes "embed_query_cached md5_hex enc q r = (res, r1)"
  shows "index (index_builder r1) = index (index_builder r)
       \<and> metadata (index_builder r1) = metadata (index_builder r)
       \<and> max_context_chars r1 = max_context_chars r
       \<and> retrieval_k r1 = retrieval_k r"
  using assms
  by (auto simp: embed_query_cached_def embed_query_def Let_def split: if_splits)

lemma retrieve_ready_cases:
  assumes "retrieve md5_hex enc search elapsed qry k filters min_score r = Inr (results, r')"
    and "is_ready (index_builder r)"
  shows "\<exists>ix qe r1 cands.
           index (index_builder r) = Some ix
         \<and> embed_query_cached md5_hex enc qry r = (Inr qe, r1)
         \<and> search ix qe (if has_filters filters then py_or k (retrieval_k r) * 3
                          else py_or k (retrieval_k r)) = Inr cands
         \<and> collect (metadata (index_builder r)) filters min_score (max_context_chars r)
              (py_or k (retrieval_k r)) cands [] = Inr results"
proof -
  obtain res r1 where e: "embed_query_cached md5_hex enc qry r = (res, r1)"
    by (cases "embed_query_cached md5_hex enc qry r")
  note keep = embed_query_cached_keeps [OF e]
  from assms e keep show ?thesis
    by (auto simp: retrieve_def Let_def split: sum.splits option.splits)
qed

lemma retrieve_not_ready:
  assumes "retrieve md5_hex enc search elapsed qry k filters min_score r = Inr (results, r')"
    and "\<not> is_ready (index_builder r)"
  shows "results = []"
  using assms by (simp add: retrieve_def Let_def)

text \<open>
  C5, as the code has it. With a non-empty filter dict, every result that \<open>retrieve\<close>
  returns has metadata equal (by Python's \<open>==\<close>, a missing key reading as \<open>None\<close>)
  to the filter on every filter key, for every \<open>k\<close>. The results are collected in
  descending-score order from the search candidates: when the index is ready they
  are, in order and row by row, a subsequence of the candidates that the search on the
  retriever's own index returned for the embedding of the query and three times the
  resolved \<open>k\<close>, so they are in descending order of score whenever those candidates
  are; when the index is not ready there are none. The resolved \<open>k\<close> is the argument,
  or the default \<open>retrieval_k\<close> when the argument is \<open>None\<close> or 0. There are at most
  that many results when it is at least 1, and at most one result otherwise.
\<close>

theorem retrieve_filtered:
  assumes "retrieve md5_hex enc search elapsed qry k (Some fs) min_score r = Inr (results, r')"
    and "fs \<noteq> []"
  shows "(\<forall>res\<in>set results. \<forall>(key, value)\<in>set fs. py_eq (dict_get (r_metadata res) key) value)
       \<and> int (length results) \<le> max 1 (py_or k (retrieval_k r))
       \<and> (if is_ready (index_builder r)
          then \<exists>ix qe r1 cands sub.
                 index (index_builder r) = Some ix
               \<and> embed_query_cached md5_hex enc qry r = (Inr qe, r1)
               \<and> search ix qe (py_or k (retrieval_k r) * 3) = Inr cands
               \<and> subseq sub cands
               \<and> map score results = map snd sub
               \<and> map (\<lambda>res. Inr (r_metadata res)) results
                   = map (\<lambda>c. py_index (metadata (index_builder r)) (fst c)) sub
               \<and> (descending (map snd cands) \<longrightarrow> descending (map score results))
          else results = [])"
proof (cases "is_ready (index_builder r)")
  case False
  from retrieve_not_ready [OF assms(1) False] False show ?thesis by simp
next
  case True
  have hf: "has_filters (Some fs)" using assms(2) by (simp add: has_filters_def)
  from retrieve_ready_cases [OF assms(1) True] hf
  obtain ix qe r1 cands where ix: "index (index_builder r) = Some ix"
    and e: "embed_query_cached md5_hex enc qry r = (Inr qe, r1)"
    and s: "search ix qe (py_or k (retrieval_k r) * 3) = Inr cands"
    and c: "collect (metadata (index_builder r)) (Some fs) min_score (max_context_chars r)
              (py_or k (retrieval_k r)) cands [] = Inr results"
    by auto
  from collect_filters [OF hf c] have "\<forall>res\<in>set results. filters_match (r_metadata res) fs"
    by simp
  then have a: "\<forall>res\<in>set results. \<forall>(key, value)\<in>set fs. py_eq (dict_get (r_metadata res) key) value"
    by (simp add: filters_match_def list_all_iff)
  from collect_length_max [OF c] have b: "int (length results) \<le> max 1 (py_or k (retrieval_k r))"
    by simp
  from collect_rows [OF c] obtain sub where sub: "subseq sub cands"
    "map score results = map snd sub"
    "map (\<lambda>res. Inr (r_metadata res)) results
       = map (\<lambda>c. py_index (metadata (index_builder r)) (fst c)) sub"
    by auto
  from sub(1) have "subseq (map snd sub) (map snd cands)" by (rule subseq_map)
  then have d: "descending (map snd cands) \<longrightarrow> descending (map score results)"
    using sub(2) by (auto intro: descending_subseq)
  from True a b ix e s sub d show ?thesis by auto
qed

theorem retrieve_filtered_witness:
  "map_sum id (map score \<circ> fst)
     (retrieve example_md5 example_enc example_search 0 ''q'' (Some 2)
        (Some [(''document_id'', VStr ''X'')]) 0 example_retriever) = Inr [0.9, 0.7]
   \<and> map_sum id (map (\<lambda>res. dict_get (r_metadata res) ''document_id'') \<circ> fst)
     (retrieve example_md5 example_enc example_search 0 ''q'' (Some 2)
        (Some [(''document_id'', VStr ''X'')]) 0 example_retriever) = Inr [VStr ''X'', VStr ''X'']
   \<and> is_ready (index_builder example_retriever)
   \<and> descending (map snd [(0::int, 0.9::real), (1, 0.8), (2, 0.7), (3, 0.6), (4, 0.5)])
   \<and> map_sum id (descending \<circ> map score \<circ> fst)
     (retrieve example_md5 example_enc example_search 0 ''q'' (Some 2)
        (Some [(''document_id'', VStr ''X'')]) 0 example_retriever) = Inr True"
proof -
  let ?fs = "[(''document_id'', VStr ''X'')]"
  obtain results r' where
    r: "retrieve example_md5 example_enc example_search 0 ''q'' (Some 2)
          (Some ?fs) 0 example_retriever = Inr (results, r')"
    and s: "map score results = [0.9, 0.7]"
    by (simp add: ex_defs)
  have ne: "?fs \<noteq> []" by simp
  have ready: "is_ready (index_builder example_retriever)"
    by (simp add: ex_defs)
  have desc: "descending (map snd [(0::int, 0.9::real), (1, 0.8), (2, 0.7), (3, 0.6), (4, 0.5)])"
    by (simp add: descending_def)
  note t = retrieve_filtered [OF r ne]
  from t have f: "\<forall>res\<in>set results. py_eq (dict_get (r_metadata res) ''document_id'') (VStr ''X'')"
    by simp
  from t ready obtain ix qe r1 cands where
    c: "example_search ix qe (py_or (Some 2) (retrieval_k example_retriever) * 3) = Inr cands"
    and d: "descending (map snd cands) \<longrightarrow> descending (map score results)"
    by auto
  from c have "cands = [(0, 0.9), (1, 0.8), (2, 0.7), (3, 0.6), (4, 0.5)]"
    by (simp add: example_search_def py_or_def)
  with d desc have dr: "descending (map score results)" by simp
  from s obtain a b where "results = [a, b]"
    by (cases results; cases "tl results") auto
  with f r s dr ready desc show ?thesis
    by (auto elim: py_eq.elims)
qed

text \<open>
  The claim bounds the results by the argument \<open>k\<close> for every \<open>k\<close>. With
  \<open>k = 0\<close> and the default 4, the example corpus yields three results for the
  filter on document X, more than \<open>k\<close>.
\<close>

theorem retrieve_zero_k_counterexample:
  "map_sum id (length \<circ> fst)
     (retrieve example_md5 example_enc example_search 0 ''q'' (Some 0)
        (Some [(''document_id'', VStr ''X'')]) 0 example_retriever) = Inr 3"
  by (simp add: ex_defs)

text \<open>
  A negative \<open>k\<close> is truthy and stays as it is; a search that still returns a
  candidate then yields one result, since the loop tests the count only after it has
  appended.
\<close>

lemma retrieve_negative_k_example:
  "map_sum id (length \<circ> fst)
     (retrieve example_md5 example_enc (\<lambda>ix q n. Inr [(0, 0.9)]) 0 ''q'' (Some (- 1))
        (Some [(''document_id'', VStr ''X'')]) 0 example_retriever) = Inr 1"
  by (simp add: ex_defs)

subsection \<open>Falsy arguments\<close>

lemma collect_empty_filters:
  "collect mds (Some []) ms mc k cands acc = collect mds None ms mc k cands acc"
  by (induction cands arbitrary: acc) (auto simp: has_filters_def Let_def split: sum.splits)

text \<open>
  C10. \<open>retrieve\<close> with \<open>k = 0\<close> is \<open>retrieve\<close> with \<open>k\<close> unspecified, result
  and state alike: 0 resolves to the default, 4 as configured, and on the example
  corpus the call returns four results, not none. An empty filter dict is no filter:
  the call equals the one with \<open>filters\<close> unspecified, so the search asks for \<open>k\<close>
  candidates and no record is checked.
\<close>

theorem retrieve_falsy_arguments:
  "retrieve md5_hex enc search elapsed qry (Some 0) filters min_score r
     = retrieve md5_hex enc search elapsed qry None filters min_score r
   \<and> py_or (Some 0) 4 = 4
   \<and> map_sum id (length \<circ> fst)
        (retrieve example_md5 example_enc example_search 0 ''q'' (Some 0) None 0 example_retriever)
      = Inr 4
   \<and> retrieve md5_hex enc search elapsed qry k (Some []) min_score r
     = retrieve md5_hex enc search elapsed qry k None min_score r"
proof (intro conjI)
  show "retrieve md5_hex enc search elapsed qry (Some 0) filters min_score r
     = retrieve md5_hex enc search elapsed qry None filters min_score r"
    by (simp add: retrieve_def py_or_def)
  show "py_or (Some 0) 4 = 4" by (simp add: py_or_def)
  show "map_sum id (length \<circ> fst)
        (retrieve example_md5 example_enc example_search 0 ''q'' (Some 0) None 0 example_retriever)
      = Inr 4"
    by (simp add: ex_defs)
  have h: "has_filters (Some []) = has_filters None" by (simp add: has_filters_def)
  show "retrieve md5_hex enc search elapsed qry k (Some []) min_score r
     = retrieve md5_hex enc search elapsed qry k None min_score r"
    unfolding retrieve_def collect_empty_filters h by (rule refl)
qed

section \<open>Properties of the LLM gateway\<close>

lemma try_attempt_fails: "attempt_fails outcome \<Longrightarrow> try_attempt mdl outcome = Inl (failure_text outcome)"
  by (auto simp: attempt_fails_def failure_text_def try_attempt_def split: sum.splits)

lemma generate_loop_all_fail:
  assumes "\<forall>i. a \<le> i \<and> int i < n \<longrightarrow> attempt_fails (call i)"
  shows "int a < n \<Longrightarrow> generate_loop call mdl n a sleeps =
     (failure_response mdl
        (''LLM call failed after '' @ str_int n @ '' attempts: '' @ failure_text (call (nat n - 1))),
      sleeps @ map (\<lambda>i. 2 ^ i) [a..<nat n - 1], nat n)"
  using assms
proof (induction "nat n - a" arbitrary: a sleeps)
  case 0
  then show ?case by simp
next
  case (Suc d)
  from Suc.prems have f: "try_attempt mdl (call a) = Inl (failure_text (call a))"
    by (intro try_attempt_fails) simp
  show ?case
  proof (cases "int a < n - 1")
    case False
    with Suc.prems have "a = nat n - 1" "Suc a = nat n" by linarith+
    with False Suc.prems f show ?thesis
      by (subst generate_loop.simps) simp
  next
    case True
    have "generate_loop call mdl n (Suc a) (sleeps @ [2 ^ a]) =
     (failure_response mdl
        (''LLM call failed after '' @ str_int n @ '' attempts: '' @ failure_text (call (nat n - 1))),
      (sleeps @ [2 ^ a]) @ map (\<lambda>i. 2 ^ i) [Suc a..<nat n - 1], nat n)"
    proof (rule Suc.hyps(1))
      show "d = nat n - Suc a" using Suc.hyps(2) by linarith
      show "int (Suc a) < n" using True by linarith
      show "\<forall>i. Suc a \<le> i \<and> int i < n \<longrightarrow> attempt_fails (call i)" using Suc.prems(2) by auto
    qed
    moreover from True have "[a..<nat n - 1] = a # [Suc a..<nat n - 1]"
      by (intro upt_conv_Cons) linarith
    ultimately show ?thesis using True Suc.prems f
      by (subst generate_loop.simps) simp
  qed
qed

text \<open>
  C9. With a client in place and a retry ceiling of at least 1 (3 by default), a
  generation whose every attempt fails, by an exception or by a response without
  choices, makes exactly \<open>max_retries\<close> calls, sleeps 1, 2, 4, ... seconds between
  them (\<open>2 ** attempt\<close> after each failed attempt but the last), and returns a
  response with \<open>success = False\<close> whose error text names \<open>max_retries\<close> and the last
  failure. Nothing is raised and nothing is retried further.
\<close>

theorem generate_all_attempts_fail:
  assumes "client gw" and "1 \<le> max_retries"
    and "\<forall>i<nat max_retries. attempt_fails (llm (py_or mt (max_tokens gw)) i)"
  shows "generate llm gw mt max_retries =
     (\<lparr>llm_content = [], llm_model = model gw, usage = None, latency_ms = 0, llm_success = False,
       llm_error = Some (''LLM call failed after '' @ str_int max_retries @ '' attempts: ''
          @ failure_text (llm (py_or mt (max_tokens gw)) (nat max_retries - 1)))\<rparr>,
      map (\<lambda>i. 2 ^ i) [0..<nat max_retries - 1], nat max_retries)"
proof -
  have "\<forall>i. 0 \<le> i \<and> int i < max_retries \<longrightarrow> attempt_fails (llm (py_or mt (max_tokens gw)) i)"
    using assms(3) by auto
  from generate_loop_all_fail [OF this, of "model gw" "[]"] assms(1,2) show ?thesis
    by (simp add: generate_def failure_response_def del: One_nat_def)
qed

theorem generate_all_attempts_fail_witness:
  "generate failing_llm \<lparr>client = True, model = ''m'', max_tokens = 512\<rparr> None 3
     = (\<lparr>llm_content = [], llm_model = ''m'', usage = None, latency_ms = 0, llm_success = False,
         llm_error = Some ''LLM call failed after 3 attempts: timeout''\<rparr>, [1, 2], 3)"
proof -
  let ?gw = "\<lparr>client = True, model = ''m'', max_tokens = 512\<rparr>"
  have c: "client ?gw" and n: "(1::int) \<le> 3" by simp_all
  have f: "\<forall>i<nat 3. attempt_fails (failing_llm (py_or None (max_tokens ?gw)) i)"
    by (simp add: attempt_fails_def failing_llm_def)
  from generate_all_attempts_fail [where llm = failing_llm and mt = None, OF c n f]
  show ?thesis
    by (simp add: failure_text_def failing_llm_def str_int_def str_nat.simps digit_char_def
        upt_conv_Cons)
qed

section \<open>Properties of the pipeline\<close>

lemma new_pipeline_uninitialized: "\<not> is_initialized (new_pipeline cs ov k mc gw ip mp)"
  by (simp add: new_pipeline_def)

lemma load_index_failure_uninitialized:
  "\<not> is_initialized p \<Longrightarrow> load_index ie me ri rm p = (False, p') \<Longrightarrow> \<not> is_initialized p'"
  by (auto simp: load_index_def Let_def split: if_splits prod.splits)

text \<open>
  C7. A query on a pipeline that is not initialized returns a response, not an
  exception, for every question, \<open>k\<close>, filters and prompt key: \<open>success\<close> is false,
  the answer says that no documents have been indexed yet, the error names the
  uninitialized pipeline, and citations and sources are empty. The pipeline is left as
  it was. A new pipeline is in that state, and stays in it when loading an index
  fails.
\<close>

theorem query_uninitialized:
  assumes "\<not> is_initialized p"
  shows "query env question k filters system_prompt_key p =
     Inr (\<lparr>answer = ''No documents have been indexed yet. Please upload some documents first.'',
            citations = [], sources = [], llm_response_dict = EmptyDict, success = False,
            error = Some ''Pipeline not initialized - no documents indexed''\<rparr>, p)"
  using assms by (simp add: query_def)

theorem query_uninitialized_witness:
  "\<not> is_initialized (new_pipeline 512 128 4 3000 \<lparr>client = False, model = ''m'', max_tokens = 512\<rparr> None None :: nat pipeline)
   \<and> map_sum id (success \<circ> fst)
        (query example_env ''What happened?'' (Some 2) None ''default''
           (new_pipeline 512 128 4 3000 \<lparr>client = False, model = ''m'', max_tokens = 512\<rparr> None None :: nat pipeline))
      = Inr False"
  using query_uninitialized [OF new_pipeline_uninitialized, of example_env "''What happened?''" "Some 2" None "''default''"
      512 128 4 3000 "\<lparr>client = False, model = ''m'', max_tokens = 512\<rparr>" None None]
  by (simp add: new_pipeline_def)

end
